theory Spec2Isabelle
  imports Complex_Main "HOL-Library.AList" "HOL-Library.Multiset"
begin

section \<open>The paste storage layer\<close>

text \<open>
  A shallow embedding of the storage module of the paste bin (the three-way module with
  the Redis, file and memory backends; the older two-way module has the same
  \<^verbatim>\<open>memGet\<close>, \<^verbatim>\<open>memSet\<close>, \<^verbatim>\<open>redisGet\<close> and \<^verbatim>\<open>redisSet\<close>, word for word).
  Every exported operation of the module becomes a function from the process
  configuration, the state of the outside world and the value of \<^verbatim>\<open>Date.now()\<close> to a
  result and the new state of the world.

  What is idealised, once and for all:
  \<^item> timestamps are mathematical integers (the source holds them in doubles, exact far
    beyond any date), and the division and \<^verbatim>\<open>Math.ceil\<close> in \<^verbatim>\<open>Math.ceil(x / 1000)\<close>
    are those of the real numbers;
  \<^item> a JavaScript string is a \<^typ>\<open>string\<close>; the sanitising regular expression keeps
    ASCII letters, digits, underscore and hyphen, and every other character is dropped;
  \<^item> \<^verbatim>\<open>JSON.stringify\<close> followed by \<^verbatim>\<open>JSON.parse\<close> gives a paste back unchanged; a
    stored text is either the serialisation of a paste or text that \<^verbatim>\<open>JSON.parse\<close>
    rejects (valid JSON of another shape is not represented);
  \<^item> the file system holds regular files under absolute normalised paths; a write and
    the listing of the managed directory always succeed, and \<^verbatim>\<open>unlink\<close> and
    \<^verbatim>\<open>readFile\<close> fail only on a missing file;
  \<^item> the Redis service and the process share one clock; a key written with
    \<^verbatim>\<open>EX s\<close> at time \<open>now\<close> is gone from \<open>now + 1000 * s\<close> on.
\<close>

subsection \<open>Data model\<close>

record Paste =
  id_p :: string
  title :: string
  content :: string
  language :: string
  createdAt :: int
  expiresAt :: "int option"

datatype StorageMode = Redis | File | Memory

text \<open>The part of \<^verbatim>\<open>process\<close> the module reads: three environment variables
  (\<open>None\<close> when unset) and the working directory, as the list of its components.\<close>

record process =
  STORAGE_MODE :: "string option"
  UPSTASH_REDIS_REST_URL :: "string option"
  UPSTASH_REDIS_REST_TOKEN :: "string option"
  cwd :: "string list"

type_synonym path = "string list"

datatype file_text = Serialized Paste | Malformed string

datatype fs_access = ReadFile path | WriteFile path | Unlink path

text \<open>The world: the process-wide \<^verbatim>\<open>Map\<close> in insertion order, the files in directory
  order, the file accesses made so far, and the Redis keys with their deadlines.\<close>

record world =
  memStore :: "(string \<times> Paste) list"
  files :: "(path \<times> file_text) list"
  fs_log :: "fs_access list"
  redis :: "string \<rightharpoonup> (Paste \<times> int option)"

subsection \<open>JavaScript truthiness\<close>

definition truthy_str :: "string option \<Rightarrow> bool" where
  "truthy_str v = (case v of None \<Rightarrow> False | Some s \<Rightarrow> s \<noteq> [])"

text \<open>The falsy values of \<^verbatim>\<open>number | null\<close> are \<^verbatim>\<open>null\<close> and \<^verbatim>\<open>0\<close>, so the test
  \<^verbatim>\<open>paste.expiresAt && paste.expiresAt < Date.now()\<close> of both readers is:\<close>

definition expired_on_read :: "int \<Rightarrow> Paste \<Rightarrow> bool" where
  "expired_on_read now paste =
     (case expiresAt paste of None \<Rightarrow> False | Some e \<Rightarrow> e \<noteq> 0 \<and> e < now)"

text \<open>and the test \<^verbatim>\<open>!paste.expiresAt || paste.expiresAt > now\<close> of both listing loops:\<close>

definition unexpired :: "int \<Rightarrow> Paste \<Rightarrow> bool" where
  "unexpired now paste =
     (case expiresAt paste of None \<Rightarrow> True | Some e \<Rightarrow> e = 0 \<or> now < e)"

subsection \<open>Storage mode detection\<close>

definition mode_of_string :: "string \<Rightarrow> StorageMode option" where
  "mode_of_string s =
     (if s = ''redis'' then Some Redis
      else if s = ''file'' then Some File
      else if s = ''memory'' then Some Memory
      else None)"

definition getStorageMode :: "process \<Rightarrow> StorageMode" where
  "getStorageMode pr =
     (let detected =
            (if truthy_str (UPSTASH_REDIS_REST_URL pr) \<and> truthy_str (UPSTASH_REDIS_REST_TOKEN pr)
             then Redis else File)
      in case STORAGE_MODE pr of
           None \<Rightarrow> detected
         | Some forced \<Rightarrow>
             (if forced = [] then detected
              else case mode_of_string forced of Some m \<Rightarrow> m | None \<Rightarrow> detected))"

subsection \<open>In-memory storage\<close>

definition memGet :: "world \<Rightarrow> int \<Rightarrow> string \<Rightarrow> Paste option \<times> world" where
  "memGet w now i =
     (case map_of (memStore w) i of
        None \<Rightarrow> (None, w)
      | Some paste \<Rightarrow>
          (if expired_on_read now paste
           then (None, w\<lparr>memStore := AList.delete i (memStore w)\<rparr>)
           else (Some paste, w)))"

definition memSet :: "world \<Rightarrow> Paste \<Rightarrow> world" where
  "memSet w paste = w\<lparr>memStore := AList.update (id_p paste) paste (memStore w)\<rparr>"

subsection \<open>Paths and the file system\<close>

fun split_sep :: "string \<Rightarrow> string list" where
  "split_sep [] = [Nil]"
| "split_sep (c # cs) =
     (if c = CHR ''/'' then [] # split_sep cs
      else (case split_sep cs of [] \<Rightarrow> [c # Nil] | s # ss \<Rightarrow> (c # s) # ss))"

definition normalize_step :: "path \<Rightarrow> string \<Rightarrow> path" where
  "normalize_step acc seg =
     (if seg = [] \<or> seg = ''.'' then acc
      else if seg = ''..'' then butlast acc
      else acc @ [seg])"

text \<open>\<^verbatim>\<open>path.join\<close> on an absolute, normalised first argument: the further arguments are
  cut at the separators and resolved one component at a time.\<close>

definition path_join :: "path \<Rightarrow> string list \<Rightarrow> path" where
  "path_join base segs = foldl normalize_step base (concat (map split_sep segs))"

definition DATA_DIR :: "process \<Rightarrow> path" where
  "DATA_DIR pr = path_join (cwd pr) [''data'', ''pastes'']"

definition fs_readFile :: "world \<Rightarrow> path \<Rightarrow> file_text option \<times> world" where
  "fs_readFile w p = (map_of (files w) p, w\<lparr>fs_log := fs_log w @ [ReadFile p]\<rparr>)"

definition fs_writeFile :: "world \<Rightarrow> path \<Rightarrow> file_text \<Rightarrow> world" where
  "fs_writeFile w p c =
     w\<lparr>files := AList.update p c (files w), fs_log := fs_log w @ [WriteFile p]\<rparr>"

text \<open>\<open>False\<close> is the rejection with ENOENT.\<close>

definition fs_unlink :: "world \<Rightarrow> path \<Rightarrow> bool \<times> world" where
  "fs_unlink w p =
     (map_of (files w) p \<noteq> None,
      w\<lparr>files := AList.delete p (files w), fs_log := fs_log w @ [Unlink p]\<rparr>)"

definition fs_readdir :: "world \<Rightarrow> path \<Rightarrow> string list" where
  "fs_readdir w d = map (\<lambda>e. last (fst e)) (filter (\<lambda>e. fst e \<noteq> [] \<and> butlast (fst e) = d) (files w))"

definition JSON_stringify :: "Paste \<Rightarrow> file_text" where
  "JSON_stringify paste = Serialized paste"

definition JSON_parse :: "file_text \<Rightarrow> Paste option" where
  "JSON_parse t = (case t of Serialized paste \<Rightarrow> Some paste | Malformed s \<Rightarrow> None)"

subsection \<open>JSON file storage\<close>

text \<open>Directories are implicit in the model, so \<^verbatim>\<open>mkdir\<close> with \<^verbatim>\<open>recursive\<close> changes
  nothing; the source swallows its failure.\<close>

definition ensureDataDir :: "process \<Rightarrow> world \<Rightarrow> world" where
  "ensureDataDir pr w = w"

definition safe_char :: "char \<Rightarrow> bool" where
  "safe_char c =
     (let n = (of_char c :: nat)
      in (97 \<le> n \<and> n \<le> 122) \<or> (65 \<le> n \<and> n \<le> 90) \<or> (48 \<le> n \<and> n \<le> 57)
         \<or> c = CHR ''_'' \<or> c = CHR ''-'')"

definition safeId :: "string \<Rightarrow> string" where
  "safeId i = filter safe_char i"

definition getPasteFilePath :: "process \<Rightarrow> string \<Rightarrow> path" where
  "getPasteFilePath pr i = path_join (DATA_DIR pr) [safeId i @ ''.json'']"

definition fileGet :: "process \<Rightarrow> world \<Rightarrow> int \<Rightarrow> string \<Rightarrow> Paste option \<times> world" where
  "fileGet pr w now i =
     (let filePath = getPasteFilePath pr i;
          (text, w1) = fs_readFile w filePath
      in case text of
           None \<Rightarrow> (None, w1)
         | Some t \<Rightarrow>
             (case JSON_parse t of
                None \<Rightarrow> (None, w1)
              | Some paste \<Rightarrow>
                  (if expired_on_read now paste
                   then (None, snd (fs_unlink w1 filePath))
                   else (Some paste, w1))))"

definition fileSet :: "process \<Rightarrow> world \<Rightarrow> Paste \<Rightarrow> world" where
  "fileSet pr w paste =
     (let w1 = ensureDataDir pr w;
          filePath = getPasteFilePath pr (id_p paste)
      in fs_writeFile w1 filePath (JSON_stringify paste))"

subsection \<open>Upstash Redis\<close>

definition redis_live :: "int \<Rightarrow> (Paste \<times> int option) \<Rightarrow> bool" where
  "redis_live now e = (case snd e of None \<Rightarrow> True | Some deadline \<Rightarrow> now < deadline)"

definition redis_get :: "world \<Rightarrow> int \<Rightarrow> string \<Rightarrow> Paste option" where
  "redis_get w now key =
     (case redis w key of
        None \<Rightarrow> None
      | Some e \<Rightarrow> if redis_live now e then Some (fst e) else None)"

definition redis_set :: "world \<Rightarrow> int \<Rightarrow> string \<Rightarrow> Paste \<Rightarrow> int option \<Rightarrow> world" where
  "redis_set w now key v ex =
     w\<lparr>redis := (redis w)(key \<mapsto> (v, map_option (\<lambda>s. now + 1000 * s) ex))\<rparr>"

definition redis_del :: "world \<Rightarrow> int \<Rightarrow> string \<Rightarrow> int \<times> world" where
  "redis_del w now key =
     ((if redis_get w now key = None then 0 else 1), w\<lparr>redis := (redis w)(key := None)\<rparr>)"

definition redisGet :: "world \<Rightarrow> int \<Rightarrow> string \<Rightarrow> Paste option \<times> world" where
  "redisGet w now i = (redis_get w now (''paste:'' @ i), w)"

definition redisSet :: "world \<Rightarrow> int \<Rightarrow> Paste \<Rightarrow> world" where
  "redisSet w now paste =
     (let key = ''paste:'' @ id_p paste
      in case expiresAt paste of
           None \<Rightarrow> redis_set w now key paste None
         | Some e \<Rightarrow>
             (if e \<noteq> 0 then
                (let ttlSeconds = \<lceil>real_of_int (e - now) / 1000\<rceil>
                 in if 0 < ttlSeconds then redis_set w now key paste (Some ttlSeconds)
                    else redis_set w now key paste None)
              else redis_set w now key paste None))"

subsection \<open>Public API\<close>

definition getPaste :: "process \<Rightarrow> world \<Rightarrow> int \<Rightarrow> string \<Rightarrow> Paste option \<times> world" where
  "getPaste pr w now i =
     (case getStorageMode pr of
        Redis \<Rightarrow> redisGet w now i
      | File \<Rightarrow> fileGet pr w now i
      | Memory \<Rightarrow> memGet w now i)"

definition savePaste :: "process \<Rightarrow> world \<Rightarrow> int \<Rightarrow> Paste \<Rightarrow> world" where
  "savePaste pr w now paste =
     (case getStorageMode pr of
        Redis \<Rightarrow> redisSet w now paste
      | File \<Rightarrow> fileSet pr w paste
      | Memory \<Rightarrow> memSet w paste)"

definition endsWith :: "string \<Rightarrow> string \<Rightarrow> bool" where
  "endsWith s suf = (length suf \<le> length s \<and> drop (length s - length suf) s = suf)"

text \<open>\<^verbatim>\<open>Array.prototype.sort\<close> is stable; with the comparator
  \<^verbatim>\<open>(a, b) => b.createdAt - a.createdAt\<close> it is the stable sort on the negated key.\<close>

definition sort_newest_first :: "Paste list \<Rightarrow> Paste list" where
  "sort_newest_first pastes = sort_key (\<lambda>p. - createdAt p) pastes"

text \<open>The body of the loop over the directory entries, on the list built so far.\<close>

fun scan_files :: "process \<Rightarrow> int \<Rightarrow> string list \<Rightarrow> Paste list \<times> world \<Rightarrow> Paste list \<times> world" where
  "scan_files pr now [] acc = acc"
| "scan_files pr now (file # rest) (pastes, w) =
     (if endsWith file ''.json'' then
        (let (text, w1) = fs_readFile w (path_join (DATA_DIR pr) [file])
         in case text of
              None \<Rightarrow> scan_files pr now rest (pastes, w1)
            | Some t \<Rightarrow>
                (case JSON_parse t of
                   None \<Rightarrow> scan_files pr now rest (pastes, w1)
                 | Some paste \<Rightarrow>
                     (if unexpired now paste
                      then scan_files pr now rest (pastes @ [paste], w1)
                      else scan_files pr now rest
                             (pastes, snd (fs_unlink w1 (path_join (DATA_DIR pr) [file]))))))
      else scan_files pr now rest (pastes, w))"

definition getAllPastes :: "process \<Rightarrow> world \<Rightarrow> int \<Rightarrow> Paste list \<times> world" where
  "getAllPastes pr w now =
     (case getStorageMode pr of
        Memory \<Rightarrow> (sort_newest_first (filter (unexpired now) (map snd (memStore w))), w)
      | File \<Rightarrow>
          (let w1 = ensureDataDir pr w;
               names = fs_readdir w1 (DATA_DIR pr);
               (pastes, w2) = scan_files pr now names ([], w1)
           in (sort_newest_first pastes, w2))
      | Redis \<Rightarrow> ([], w))"

definition deletePaste :: "process \<Rightarrow> world \<Rightarrow> int \<Rightarrow> string \<Rightarrow> bool \<times> world" where
  "deletePaste pr w now i =
     (case getStorageMode pr of
        Memory \<Rightarrow> (map_of (memStore w) i \<noteq> None, w\<lparr>memStore := AList.delete i (memStore w)\<rparr>)
      | File \<Rightarrow> fs_unlink w (getPasteFilePath pr i)
      | Redis \<Rightarrow> (let (result, w1) = redis_del w now (''paste:'' @ i) in (0 < result, w1)))"

definition getCurrentStorageMode :: "process \<Rightarrow> StorageMode" where
  "getCurrentStorageMode pr = getStorageMode pr"

subsection \<open>Notions the properties are stated with\<close>

text \<open>The expiry of a paste has not passed at a given time.\<close>

definition expiry_not_passed :: "int \<Rightarrow> Paste \<Rightarrow> bool" where
  "expiry_not_passed now paste = (case expiresAt paste of None \<Rightarrow> True | Some t \<Rightarrow> now < t)"

text \<open>The selected backend holds something under an identifier: an entry of the
  \<^verbatim>\<open>Map\<close>, a file at the path of the identifier, or a live Redis key.\<close>

definition holds_record :: "process \<Rightarrow> world \<Rightarrow> int \<Rightarrow> string \<Rightarrow> bool" where
  "holds_record pr w now i =
     (case getStorageMode pr of
        Memory \<Rightarrow> map_of (memStore w) i \<noteq> None
      | File \<Rightarrow> map_of (files w) (getPasteFilePath pr i) \<noteq> None
      | Redis \<Rightarrow> redis_get w now (''paste:'' @ i) \<noteq> None)"

fun access_path :: "fs_access \<Rightarrow> path" where
  "access_path (ReadFile q) = q"
| "access_path (WriteFile q) = q"
| "access_path (Unlink q) = q"

text \<open>A file name that is one path component and nothing else.\<close>

definition plain_name :: "string \<Rightarrow> bool" where
  "plain_name n =
     (n \<noteq> [] \<and> n \<noteq> ''.'' \<and> n \<noteq> ''..'' \<and> CHR ''/'' \<notin> set n \<and> CHR 0x00 \<notin> set n)"

definition directly_inside :: "path \<Rightarrow> path \<Rightarrow> bool" where
  "directly_inside d q = (q \<noteq> [] \<and> butlast q = d \<and> plain_name (last q))"

definition new_accesses :: "world \<Rightarrow> world \<Rightarrow> fs_access list" where
  "new_accesses w w' = drop (length (fs_log w)) (fs_log w')"

text \<open>Between two worlds the log has only grown, and every file access added to it is
  to a file directly inside the managed directory.\<close>

definition confined :: "process \<Rightarrow> world \<Rightarrow> world \<Rightarrow> bool" where
  "confined pr w w' =
     (fs_log w' = fs_log w @ new_accesses w w' \<and>
      list_all (\<lambda>a. directly_inside (DATA_DIR pr) (access_path a)) (new_accesses w w'))"

text \<open>A well-formed file system: no path occurs twice and no component holds a separator.\<close>

definition wf_fs :: "world \<Rightarrow> bool" where
  "wf_fs w =
     (distinct (map fst (files w)) \<and>
      list_all (\<lambda>e. list_all (\<lambda>n. CHR ''/'' \<notin> set n) (fst e)) (files w))"

definition json_entry :: "process \<Rightarrow> path \<times> file_text \<Rightarrow> bool" where
  "json_entry pr e =
     (fst e \<noteq> [] \<and> butlast (fst e) = DATA_DIR pr \<and> endsWith (last (fst e)) ''.json'')"

definition parsed :: "file_text \<Rightarrow> Paste list" where
  "parsed t = (case JSON_parse t of Some p \<Rightarrow> [p] | None \<Rightarrow> [])"

text \<open>The records the file backend stores: what parses, of the \<^verbatim>\<open>.json\<close> files directly
  inside the managed directory, in directory order.\<close>

definition file_records :: "process \<Rightarrow> world \<Rightarrow> Paste list" where
  "file_records pr w = concat (map (\<lambda>e. parsed (snd e)) (filter (json_entry pr) (files w)))"

definition evicted :: "process \<Rightarrow> int \<Rightarrow> path \<times> file_text \<Rightarrow> bool" where
  "evicted pr now e = (json_entry pr e \<and> list_ex (\<lambda>p. \<not> unexpired now p) (parsed (snd e)))"

definition newest_first :: "Paste list \<Rightarrow> bool" where
  "newest_first ps = sorted_wrt (\<lambda>a b. createdAt b \<le> createdAt a) ps"

text \<open>One round of the directory loop: what it appends, whether it unlinks, and the
  world it leaves.\<close>

definition round_pastes :: "process \<Rightarrow> int \<Rightarrow> world \<Rightarrow> string \<Rightarrow> Paste list" where
  "round_pastes pr now w n =
     (if endsWith n ''.json'' then
        (case map_of (files w) (DATA_DIR pr @ [n]) of
           None \<Rightarrow> []
         | Some t \<Rightarrow> filter (unexpired now) (parsed t))
      else [])"

definition round_evicts :: "process \<Rightarrow> int \<Rightarrow> world \<Rightarrow> string \<Rightarrow> bool" where
  "round_evicts pr now w n =
     (endsWith n ''.json'' \<and>
      (case map_of (files w) (DATA_DIR pr @ [n]) of
         None \<Rightarrow> False
       | Some t \<Rightarrow> list_ex (\<lambda>p. \<not> unexpired now p) (parsed t)))"

definition round_files :: "process \<Rightarrow> int \<Rightarrow> world \<Rightarrow> string \<Rightarrow> (path \<times> file_text) list" where
  "round_files pr now w n =
     (if round_evicts pr now w n then AList.delete (DATA_DIR pr @ [n]) (files w) else files w)"

definition round_world :: "process \<Rightarrow> int \<Rightarrow> world \<Rightarrow> string \<Rightarrow> world" where
  "round_world pr now w n =
     (if endsWith n ''.json'' then
        (let w1 = snd (fs_readFile w (DATA_DIR pr @ [n]))
         in if round_evicts pr now w n then snd (fs_unlink w1 (DATA_DIR pr @ [n])) else w1)
      else w)"

subsection \<open>Sample configurations, worlds and pastes\<close>

definition proc_memory :: process where
  "proc_memory = \<lparr>STORAGE_MODE = Some ''memory'', UPSTASH_REDIS_REST_URL = None,
     UPSTASH_REDIS_REST_TOKEN = None, cwd = [''srv'', ''app'']\<rparr>"

definition proc_file :: process where
  "proc_file = \<lparr>STORAGE_MODE = None, UPSTASH_REDIS_REST_URL = None,
     UPSTASH_REDIS_REST_TOKEN = None, cwd = [''srv'', ''app'']\<rparr>"

definition proc_redis :: process where
  "proc_redis = \<lparr>STORAGE_MODE = None, UPSTASH_REDIS_REST_URL = Some ''https://kv.example'',
     UPSTASH_REDIS_REST_TOKEN = Some ''secret'', cwd = [''srv'', ''app'']\<rparr>"

definition w_empty :: world where
  "w_empty = \<lparr>memStore = [], files = [], fs_log = [], redis = Map.empty\<rparr>"

definition mk_paste :: "string \<Rightarrow> int \<Rightarrow> int option \<Rightarrow> Paste" where
  "mk_paste i c e = \<lparr>id_p = i, title = ''Untitled'', content = ''hello'', language = ''text'',
     createdAt = c, expiresAt = e\<rparr>"

text \<open>A managed directory with a paste that never expires, one that expires at 2500, a
  corrupt record, a file of another kind and a paste that expires at 9000; and a file
  elsewhere.\<close>

definition w_dir :: world where
  "w_dir = \<lparr>memStore = [],
     files =
       [([''srv'', ''app'', ''data'', ''pastes'', ''a.json''], Serialized (mk_paste ''a'' 1000 None)),
        ([''srv'', ''app'', ''data'', ''pastes'', ''b.json''],
           Serialized (mk_paste ''b'' 2000 (Some 2500))),
        ([''srv'', ''app'', ''data'', ''pastes'', ''c.json''], Malformed ''{''),
        ([''srv'', ''app'', ''data'', ''pastes'', ''notes.txt''], Malformed ''todo''),
        ([''srv'', ''app'', ''data'', ''pastes'', ''d.json''],
           Serialized (mk_paste ''d'' 3000 (Some 9000))),
        ([''etc'', ''passwd''], Malformed ''root'')],
     fs_log = [], redis = Map.empty\<rparr>"

section \<open>Auxiliary facts\<close>

subsection \<open>Association lists\<close>

lemma map_of_delete_same: "map_of (AList.delete k al) k = None"
  by (simp add: AList.delete_conv')

lemma map_of_update_same: "map_of (AList.update k v al) k = Some v"
  by (simp add: AList.update_conv')

lemma entry_lookup:
  assumes "distinct (map fst (files w))" and "e \<in> set (files w)"
  shows "map_of (files w) (fst e) = Some (snd e)"
  using assms by (cases e) simp

lemma concat_map_filter_if:
  "concat (map (\<lambda>e. if Q e then g e else []) (filter P es)) =
   concat (map g (filter (\<lambda>e. P e \<and> Q e) es))"
  by (induction es) auto

lemma filter_concat_map:
  "filter P (concat (map g es)) = concat (map (\<lambda>e. filter P (g e)) es)"
  by (induction es) auto

subsection \<open>The sample configurations\<close>

lemma modes [simp]:
  "getStorageMode proc_memory = Memory" "getStorageMode proc_file = File"
  "getStorageMode proc_redis = Redis"
  by (simp_all add: getStorageMode_def proc_memory_def proc_file_def proc_redis_def
      mode_of_string_def truthy_str_def)

lemma getPaste_File: "getStorageMode pr = File \<Longrightarrow> getPaste pr w now i = fileGet pr w now i"
  by (simp add: getPaste_def)

lemma getPaste_Memory: "getStorageMode pr = Memory \<Longrightarrow> getPaste pr w now i = memGet w now i"
  by (simp add: getPaste_def)

lemma getPaste_Redis: "getStorageMode pr = Redis \<Longrightarrow> getPaste pr w now i = redisGet w now i"
  by (simp add: getPaste_def)

subsection \<open>Paths\<close>

lemma split_sep_no_sep: "CHR ''/'' \<notin> set s \<Longrightarrow> split_sep s = [s]"
  by (induction s) auto

lemma path_join_single:
  "CHR ''/'' \<notin> set n \<Longrightarrow> n \<noteq> [] \<Longrightarrow> n \<noteq> ''.'' \<Longrightarrow> n \<noteq> ''..'' \<Longrightarrow> path_join d [n] = d @ [n]"
  by (simp add: path_join_def split_sep_no_sep normalize_step_def)

lemma DATA_DIR_eq: "DATA_DIR pr = cwd pr @ [''data'', ''pastes'']"
  by (simp add: DATA_DIR_def path_join_def normalize_step_def)

lemma data_dir_sample [simp]: "DATA_DIR proc_file = [''srv'', ''app'', ''data'', ''pastes'']"
  by (simp add: DATA_DIR_eq proc_file_def)

lemma safe_char_plain: "safe_char c \<Longrightarrow> c \<noteq> CHR ''/'' \<and> c \<noteq> CHR ''.'' \<and> c \<noteq> CHR 0x00"
  by (auto simp: safe_char_def Let_def)

lemma safeId_plain: "c \<in> set (safeId i) \<Longrightarrow> safe_char c"
  by (simp add: safeId_def)

lemma json_name_plain:
  "CHR ''/'' \<notin> set (safeId i @ ''.json'') \<and> CHR 0x00 \<notin> set (safeId i @ ''.json'')"
  using safe_char_plain safeId_plain by auto

lemma json_name_not_dots:
  "safeId i @ ''.json'' \<noteq> [] \<and> safeId i @ ''.json'' \<noteq> ''.'' \<and> safeId i @ ''.json'' \<noteq> ''..''"
proof -
  have len: "length (safeId i @ ''.json'') = length (safeId i) + 5" by simp
  have "safeId i @ ''.json'' \<noteq> ''.''"
  proof
    assume "safeId i @ ''.json'' = ''.''"
    then have "length (safeId i @ ''.json'') = length ''.''" by (rule arg_cong)
    with len show False by simp
  qed
  moreover have "safeId i @ ''.json'' \<noteq> ''..''"
  proof
    assume "safeId i @ ''.json'' = ''..''"
    then have "length (safeId i @ ''.json'') = length ''..''" by (rule arg_cong)
    with len show False by simp
  qed
  ultimately show ?thesis by simp
qed

lemma getPasteFilePath_eq: "getPasteFilePath pr i = DATA_DIR pr @ [safeId i @ ''.json'']"
  unfolding getPasteFilePath_def
  using json_name_plain json_name_not_dots by (intro path_join_single) auto

lemma getPasteFilePath_inside: "directly_inside (DATA_DIR pr) (getPasteFilePath pr i)"
  using json_name_plain [of i] json_name_not_dots [of i]
  by (simp add: getPasteFilePath_eq directly_inside_def plain_name_def)

lemma endsWith_json_join:
  assumes "endsWith n ''.json''" and "CHR ''/'' \<notin> set n"
  shows "path_join d [n] = d @ [n]"
proof -
  from assms(1) have len: "5 \<le> length n" by (simp add: endsWith_def)
  then have "n \<noteq> []" by auto
  moreover have "n \<noteq> ''.''" using len by auto
  moreover have "n \<noteq> ''..''" using len by auto
  ultimately show ?thesis using assms(2) by (simp add: path_join_single)
qed

lemma entry_path:
  "fst e \<noteq> [] \<Longrightarrow> butlast (fst e) = d \<Longrightarrow> d @ [last (fst e)] = fst e"
  by auto

subsection \<open>Reading one paste\<close>

lemma not_passed_not_expired: "expiry_not_passed now p \<Longrightarrow> \<not> expired_on_read now p"
  by (auto simp: expiry_not_passed_def expired_on_read_def split: option.splits)

lemma ceil_ttl_covers: "(x::int) \<le> 1000 * \<lceil>real_of_int x / 1000\<rceil>"
  by linarith

lemma memGet_live:
  "map_of (memStore w) i = Some p \<Longrightarrow> \<not> expired_on_read now p \<Longrightarrow> memGet w now i = (Some p, w)"
  by (simp add: memGet_def)

lemma memGet_expired:
  "map_of (memStore w) i = Some p \<Longrightarrow> expired_on_read now p \<Longrightarrow>
     memGet w now i = (None, w\<lparr>memStore := AList.delete i (memStore w)\<rparr>)"
  by (simp add: memGet_def)

lemma fileGet_result:
  "fst (fileGet pr w now i) =
     (case map_of (files w) (getPasteFilePath pr i) of
        Some (Serialized p) \<Rightarrow> if expired_on_read now p then None else Some p
      | _ \<Rightarrow> None)"
  by (simp add: fileGet_def fs_readFile_def JSON_parse_def Let_def
      split: option.splits file_text.splits)

lemma fileGet_files:
  "files (snd (fileGet pr w now i)) =
     (case map_of (files w) (getPasteFilePath pr i) of
        Some (Serialized p) \<Rightarrow>
          if expired_on_read now p then AList.delete (getPasteFilePath pr i) (files w) else files w
      | _ \<Rightarrow> files w)"
  by (simp add: fileGet_def fs_readFile_def fs_unlink_def JSON_parse_def Let_def
      split: option.splits file_text.splits)

lemma fileGet_accesses:
  "\<exists>new. fs_log (snd (fileGet pr w now i)) = fs_log w @ new \<and>
     (new = [ReadFile (getPasteFilePath pr i)] \<or>
      new = [ReadFile (getPasteFilePath pr i), Unlink (getPasteFilePath pr i)])"
  by (simp add: fileGet_def fs_readFile_def fs_unlink_def Let_def
      split: option.splits file_text.splits)

lemma memory_round_trip:
  "expiry_not_passed now' p \<Longrightarrow> fst (memGet (memSet w p) now' (id_p p)) = Some p"
  by (simp add: memGet_def memSet_def map_of_update_same not_passed_not_expired)

lemma file_round_trip:
  "expiry_not_passed now' p \<Longrightarrow> fst (fileGet pr (fileSet pr w p) now' (id_p p)) = Some p"
  by (simp add: fileGet_def fileSet_def ensureDataDir_def fs_writeFile_def fs_readFile_def
      JSON_stringify_def JSON_parse_def map_of_update_same not_passed_not_expired Let_def)

lemma redis_round_trip:
  assumes "expiry_not_passed now' p"
  shows "fst (redisGet (redisSet w now p) now' (id_p p)) = Some p"
proof (cases "expiresAt p")
  case None
  then show ?thesis
    by (simp add: redisGet_def redisSet_def redis_set_def redis_get_def redis_live_def)
next
  case (Some t)
  with assms have lt: "now' < t" by (simp add: expiry_not_passed_def)
  have "t - now \<le> 1000 * \<lceil>real_of_int (t - now) / 1000\<rceil>" by (rule ceil_ttl_covers)
  with lt have "now' < now + 1000 * \<lceil>real_of_int (t - now) / 1000\<rceil>" by linarith
  with Some show ?thesis
    by (simp add: redisGet_def redisSet_def redis_set_def redis_get_def redis_live_def Let_def)
qed

subsection \<open>File accesses stay in the managed directory\<close>

lemma confinedI:
  "fs_log w' = fs_log w @ new \<Longrightarrow> \<forall>a\<in>set new. access_path a = q \<Longrightarrow>
     directly_inside (DATA_DIR pr) q \<Longrightarrow> confined pr w w'"
  by (simp add: confined_def new_accesses_def list_all_iff)

lemma fileGet_confined: "confined pr w (snd (fileGet pr w now i))"
proof -
  obtain new where "fs_log (snd (fileGet pr w now i)) = fs_log w @ new"
    and "new = [ReadFile (getPasteFilePath pr i)] \<or>
      new = [ReadFile (getPasteFilePath pr i), Unlink (getPasteFilePath pr i)]"
    using fileGet_accesses by blast
  then show ?thesis
    by (intro confinedI [where q = "getPasteFilePath pr i"] getPasteFilePath_inside) auto
qed

lemma fileSet_confined: "confined pr w (fileSet pr w paste)"
  by (rule confinedI [where q = "getPasteFilePath pr (id_p paste)"
        and new = "[WriteFile (getPasteFilePath pr (id_p paste))]"])
     (simp_all add: fileSet_def ensureDataDir_def fs_writeFile_def getPasteFilePath_inside Let_def)

lemma unlink_confined: "confined pr w (snd (fs_unlink w (getPasteFilePath pr i)))"
  by (rule confinedI [where q = "getPasteFilePath pr i"
        and new = "[Unlink (getPasteFilePath pr i)]"])
     (simp_all add: fs_unlink_def getPasteFilePath_inside)

lemma fileGet_frame:
  "q \<noteq> getPasteFilePath pr i \<Longrightarrow> map_of (files (snd (fileGet pr w now i))) q = map_of (files w) q"
  by (simp add: fileGet_files split: option.splits file_text.splits)

lemma fileSet_frame:
  "q \<noteq> getPasteFilePath pr (id_p paste) \<Longrightarrow>
     map_of (files (fileSet pr w paste)) q = map_of (files w) q"
  by (simp add: fileSet_def ensureDataDir_def fs_writeFile_def AList.update_conv' Let_def)

lemma unlink_frame:
  "q \<noteq> r \<Longrightarrow> map_of (files (snd (fs_unlink w r))) q = map_of (files w) q"
  by (simp add: fs_unlink_def)

lemma fileGet_new_accesses:
  "new_accesses w (snd (fileGet pr w now i)) =
     (case map_of (files w) (getPasteFilePath pr i) of
        Some (Serialized p) \<Rightarrow>
          if expired_on_read now p
          then [ReadFile (getPasteFilePath pr i), Unlink (getPasteFilePath pr i)]
          else [ReadFile (getPasteFilePath pr i)]
      | _ \<Rightarrow> [ReadFile (getPasteFilePath pr i)])"
  by (simp add: new_accesses_def fileGet_def fs_readFile_def fs_unlink_def JSON_parse_def Let_def
      split: option.splits file_text.splits)

lemma fileSet_new_accesses:
  "new_accesses w (fileSet pr w paste) = [WriteFile (getPasteFilePath pr (id_p paste))]"
  by (simp add: new_accesses_def fileSet_def ensureDataDir_def fs_writeFile_def Let_def)

lemma unlink_new_accesses: "new_accesses w (snd (fs_unlink w q)) = [Unlink q]"
  by (simp add: new_accesses_def fs_unlink_def)

lemma fileSet_stored:
  "map_of (files (fileSet pr w paste)) (getPasteFilePath pr (id_p paste)) = Some (Serialized paste)"
  by (simp add: fileSet_def ensureDataDir_def fs_writeFile_def JSON_stringify_def
      map_of_update_same Let_def)

lemma unlink_result:
  "fst (fs_unlink w q) = (map_of (files w) q \<noteq> None) \<and> map_of (files (snd (fs_unlink w q))) q = None"
  by (simp add: fs_unlink_def map_of_delete_same)

subsection \<open>The loop over the directory\<close>

lemma scan_files_round:
  assumes "CHR ''/'' \<notin> set n"
  shows "scan_files pr now (n # rest) (acc, w) =
           scan_files pr now rest (acc @ round_pastes pr now w n, round_world pr now w n)"
proof (cases "endsWith n ''.json''")
  case False
  then show ?thesis
    by (simp add: round_pastes_def round_world_def)
next
  case True
  then have j: "path_join (DATA_DIR pr) [n] = DATA_DIR pr @ [n]"
    using assms by (rule endsWith_json_join)
  show ?thesis
  proof (cases "map_of (files w) (DATA_DIR pr @ [n])")
    case None
    with True j show ?thesis
      by (simp add: round_pastes_def round_world_def round_evicts_def fs_readFile_def)
  next
    case (Some t)
    show ?thesis
    proof (cases t)
      case (Malformed s)
      with Some True j show ?thesis
        by (simp add: round_pastes_def round_world_def round_evicts_def fs_readFile_def
            JSON_parse_def parsed_def)
    next
      case (Serialized p)
      with Some True j show ?thesis
        by (simp add: round_pastes_def round_world_def round_evicts_def fs_readFile_def
            fs_unlink_def JSON_parse_def parsed_def)
    qed
  qed
qed

lemma files_round_world: "files (round_world pr now w n) = round_files pr now w n"
  by (simp add: round_world_def round_files_def round_evicts_def fs_readFile_def fs_unlink_def)

lemma round_files_other:
  "n' \<noteq> n \<Longrightarrow> map_of (round_files pr now w n) (DATA_DIR pr @ [n']) = map_of (files w) (DATA_DIR pr @ [n'])"
  by (simp add: round_files_def)

lemma round_pastes_cong:
  "map_of (files w1) (DATA_DIR pr @ [n]) = map_of (files w) (DATA_DIR pr @ [n]) \<Longrightarrow>
     round_pastes pr now w1 n = round_pastes pr now w n"
  by (simp add: round_pastes_def)

lemma round_evicts_cong:
  "map_of (files w1) (DATA_DIR pr @ [n]) = map_of (files w) (DATA_DIR pr @ [n]) \<Longrightarrow>
     round_evicts pr now w1 n = round_evicts pr now w n"
  by (simp add: round_evicts_def)

lemma scan_files_pastes:
  assumes "distinct ns" and "\<forall>n\<in>set ns. CHR ''/'' \<notin> set n"
  shows "fst (scan_files pr now ns (acc, w)) = acc @ concat (map (round_pastes pr now w) ns)"
  using assms
proof (induction ns arbitrary: acc w)
  case Nil
  then show ?case by simp
next
  case (Cons n rest)
  define w1 where "w1 = round_world pr now w n"
  from Cons.prems have step: "scan_files pr now (n # rest) (acc, w) =
        scan_files pr now rest (acc @ round_pastes pr now w n, w1)"
    unfolding w1_def by (intro scan_files_round) simp
  have fw1: "files w1 = round_files pr now w n"
    unfolding w1_def by (rule files_round_world)
  have same: "round_pastes pr now w1 m = round_pastes pr now w m" if "m \<in> set rest" for m
  proof -
    from that Cons.prems(1) have "m \<noteq> n" by auto
    then show ?thesis by (intro round_pastes_cong) (simp add: fw1 round_files_other)
  qed
  have "fst (scan_files pr now rest (acc @ round_pastes pr now w n, w1)) =
      (acc @ round_pastes pr now w n) @ concat (map (round_pastes pr now w1) rest)"
    using Cons.prems by (intro Cons.IH) auto
  also have "map (round_pastes pr now w1) rest = map (round_pastes pr now w) rest"
    using same by (intro map_cong) auto
  finally show ?case unfolding step by simp
qed

lemma scan_files_files:
  assumes "distinct ns" and "\<forall>n\<in>set ns. CHR ''/'' \<notin> set n"
  shows "files (snd (scan_files pr now ns (acc, w))) =
     filter (\<lambda>e. \<not> (\<exists>n\<in>set ns. fst e = DATA_DIR pr @ [n] \<and> round_evicts pr now w n)) (files w)"
  using assms
proof (induction ns arbitrary: acc w)
  case Nil
  then show ?case by simp
next
  case (Cons n rest)
  define w1 where "w1 = round_world pr now w n"
  from Cons.prems have step: "scan_files pr now (n # rest) (acc, w) =
        scan_files pr now rest (acc @ round_pastes pr now w n, w1)"
    unfolding w1_def by (intro scan_files_round) simp
  have fw1: "files w1 = round_files pr now w n"
    unfolding w1_def by (rule files_round_world)
  have same: "round_evicts pr now w1 m = round_evicts pr now w m" if "m \<in> set rest" for m
  proof -
    from that Cons.prems(1) have "m \<noteq> n" by auto
    then show ?thesis by (intro round_evicts_cong) (simp add: fw1 round_files_other)
  qed
  have "files (snd (scan_files pr now rest (acc @ round_pastes pr now w n, w1))) =
      filter (\<lambda>e. \<not> (\<exists>m\<in>set rest. fst e = DATA_DIR pr @ [m] \<and> round_evicts pr now w1 m)) (files w1)"
    using Cons.prems by (intro Cons.IH) auto
  also have "\<dots> = filter (\<lambda>e. \<not> (\<exists>m\<in>set rest. fst e = DATA_DIR pr @ [m] \<and> round_evicts pr now w m)) (files w1)"
    using same by (intro filter_cong) auto
  also have "\<dots> = filter (\<lambda>e. \<not> (\<exists>m\<in>set (n # rest). fst e = DATA_DIR pr @ [m] \<and> round_evicts pr now w m)) (files w)"
    by (auto simp: fw1 round_files_def AList.delete_eq intro!: filter_cong)
  finally show ?case by (simp only: step)
qed


lemma scan_files_acc: "set acc \<subseteq> set (fst (scan_files pr now ns (acc, w)))"
proof (induction ns arbitrary: acc w)
  case Nil
  then show ?case by simp
next
  case (Cons m rest)
  have a: "set acc \<subseteq> set (fst (scan_files pr now rest (acc, w')))" for w'
    by (rule Cons.IH)
  have b: "set acc \<subseteq> set (fst (scan_files pr now rest (acc @ [x], w')))" for w' x
    using Cons.IH [of "acc @ [x]" w'] by auto
  show ?case
    using a b by (simp add: fs_readFile_def split: option.splits)
qed

lemma scan_files_keeps:
  assumes "map_of (files w) q = Some (Serialized p)" and "unexpired now p"
    and "n \<in> set ns" and "endsWith n ''.json''" and "path_join (DATA_DIR pr) [n] = q"
  shows "p \<in> set (fst (scan_files pr now ns (acc, w)))"
  using assms(1,3)
proof (induction ns arbitrary: acc w)
  case Nil
  then show ?case by simp
next
  case (Cons m rest)
  let ?r = "path_join (DATA_DIR pr) [m]"
  show ?case
  proof (cases "endsWith m ''.json'' \<and> ?r = q")
    case True
    then have "scan_files pr now (m # rest) (acc, w) =
        scan_files pr now rest (acc @ [p], snd (fs_readFile w q))"
      using Cons.prems(1) assms(2) by (simp add: fs_readFile_def JSON_parse_def)
    then show ?thesis using scan_files_acc [of "acc @ [p]" pr now rest] by auto
  next
    case False
    with Cons.prems(2) assms(4,5) have n: "n \<in> set rest" by auto
    have keep1: "map_of (files (snd (fs_readFile w ?r))) q = Some (Serialized p)"
      using Cons.prems(1) by (simp add: fs_readFile_def)
    have keep2: "?r \<noteq> q \<Longrightarrow>
        map_of (files (snd (fs_unlink (snd (fs_readFile w ?r)) ?r))) q = Some (Serialized p)"
      using Cons.prems(1) by (simp add: fs_readFile_def fs_unlink_def)
    have ih: "p \<in> set (fst (scan_files pr now rest (acc', w')))"
      if "map_of (files w') q = Some (Serialized p)" for acc' w'
      using that n by (rule Cons.IH)
    show ?thesis
    proof (cases "endsWith m ''.json''")
      case no: False
      then show ?thesis using ih [OF Cons.prems(1)] by simp
    next
      case yes: True
      with False have ne: "?r \<noteq> q" by simp
      obtain t w1 where rd: "fs_readFile w ?r = (t, w1)" by (cases "fs_readFile w ?r")
      with keep1 keep2 ne have k1: "map_of (files w1) q = Some (Serialized p)"
        and k2: "map_of (files (snd (fs_unlink w1 ?r))) q = Some (Serialized p)"
        by simp_all
      show ?thesis
        using yes rd ih [OF k1] ih [OF k2]
        by (simp split: option.splits)
    qed
  qed
qed

lemma stored_name_listed:
  assumes "map_of (files w) (d @ [n]) = Some t"
  shows "n \<in> set (fs_readdir w d)"
proof -
  from assms have "(d @ [n], t) \<in> set (files w)" by (rule map_of_SomeD)
  then have "(d @ [n], t) \<in> set (filter (\<lambda>e. fst e \<noteq> [] \<and> butlast (fst e) = d) (files w))"
    by simp
  then have "last (fst (d @ [n], t)) \<in> set (fs_readdir w d)"
    unfolding fs_readdir_def set_map by (rule imageI)
  then show ?thesis by simp
qed

lemma file_listing_keeps:
  assumes "getStorageMode pr = File"
    and "map_of (files w) (getPasteFilePath pr i) = Some (Serialized p)"
    and "unexpired now p"
  shows "p \<in> set (fst (getAllPastes pr w now))"
proof -
  let ?n = "safeId i @ ''.json''"
  have e: "endsWith ?n ''.json''" by (simp add: endsWith_def)
  have j: "path_join (DATA_DIR pr) [?n] = getPasteFilePath pr i"
    by (simp add: getPasteFilePath_def)
  have "?n \<in> set (fs_readdir w (DATA_DIR pr))"
    using assms(2) unfolding getPasteFilePath_eq by (rule stored_name_listed)
  then have "p \<in> set (fst (scan_files pr now (fs_readdir w (DATA_DIR pr)) ([], w)))"
    using assms(2,3) e j by (intro scan_files_keeps [where n = ?n]) auto
  then show ?thesis
    using assms(1)
    by (simp add: getAllPastes_def ensureDataDir_def sort_newest_first_def split_beta Let_def)
qed

lemma memory_listing_keeps:
  assumes "getStorageMode pr = Memory" and "map_of (memStore w) i = Some p" and "unexpired now p"
  shows "p \<in> set (fst (getAllPastes pr w now))"
proof -
  from assms(2) have "(i, p) \<in> set (memStore w)" by (rule map_of_SomeD)
  then have "p \<in> snd ` set (memStore w)" by force
  with assms(1,3) show ?thesis
    by (simp add: getAllPastes_def sort_newest_first_def)
qed

lemma newest_first_sort: "newest_first (sort_newest_first ps)"
proof -
  have "sorted (map (\<lambda>p. - createdAt p) (sort_key (\<lambda>p. - createdAt p) ps))"
    by (rule sorted_sort_key)
  then show ?thesis
    by (simp add: newest_first_def sort_newest_first_def sorted_map)
qed

lemma mset_sort_newest_first: "mset (sort_newest_first ps) = mset ps"
  by (simp add: sort_newest_first_def)

lemma readdir_distinct:
  assumes "distinct (map fst (files w))"
  shows "distinct (fs_readdir w d)"
proof -
  let ?es = "filter (\<lambda>e. fst e \<noteq> [] \<and> butlast (fst e) = d) (files w)"
  have d1: "distinct (map fst ?es)" using assms by (rule distinct_map_filter)
  have "map fst ?es = map (\<lambda>n. d @ [n]) (fs_readdir w d)"
    by (simp add: fs_readdir_def entry_path)
  with d1 have "distinct (map (\<lambda>n. d @ [n]) (fs_readdir w d))" by simp
  then show ?thesis by (simp add: distinct_map)
qed

lemma readdir_no_sep:
  assumes "wf_fs w" and "n \<in> set (fs_readdir w d)"
  shows "CHR ''/'' \<notin> set n"
proof -
  from assms(2) obtain e where e: "e \<in> set (files w)" "fst e \<noteq> []" "n = last (fst e)"
    by (auto simp: fs_readdir_def)
  from assms(1) e(1) have "\<forall>m\<in>set (fst e). CHR ''/'' \<notin> set m"
    by (simp add: wf_fs_def list_all_iff)
  with e(2,3) show ?thesis by simp
qed

lemma round_pastes_entry:
  assumes "distinct (map fst (files w))" and "e \<in> set (files w)"
    and "fst e \<noteq> []" and "butlast (fst e) = DATA_DIR pr"
  shows "round_pastes pr now w (last (fst e)) =
     (if json_entry pr e then filter (unexpired now) (parsed (snd e)) else [])"
proof -
  have "DATA_DIR pr @ [last (fst e)] = fst e" using assms(3,4) by (rule entry_path)
  then show ?thesis
    using entry_lookup [OF assms(1,2)] assms(3,4)
    by (simp add: round_pastes_def json_entry_def)
qed

lemma round_evicts_entry:
  assumes "distinct (map fst (files w))" and "e \<in> set (files w)"
    and "fst e \<noteq> []" and "butlast (fst e) = DATA_DIR pr"
  shows "round_evicts pr now w (last (fst e)) = evicted pr now e"
proof -
  have "DATA_DIR pr @ [last (fst e)] = fst e" using assms(3,4) by (rule entry_path)
  then show ?thesis
    using entry_lookup [OF assms(1,2)] assms(3,4)
    by (simp add: round_evicts_def evicted_def json_entry_def)
qed

lemma readdir_pastes:
  assumes "distinct (map fst (files w))"
  shows "concat (map (round_pastes pr now w) (fs_readdir w (DATA_DIR pr))) =
         filter (unexpired now) (file_records pr w)"
proof -
  let ?P = "\<lambda>e. fst e \<noteq> [] \<and> butlast (fst e) = DATA_DIR pr"
  have "concat (map (round_pastes pr now w) (fs_readdir w (DATA_DIR pr))) =
      concat (map (\<lambda>e. round_pastes pr now w (last (fst e))) (filter ?P (files w)))"
    by (simp add: fs_readdir_def comp_def)
  also have "map (\<lambda>e. round_pastes pr now w (last (fst e))) (filter ?P (files w)) =
      map (\<lambda>e. if json_entry pr e then filter (unexpired now) (parsed (snd e)) else [])
        (filter ?P (files w))"
    using assms by (intro map_cong refl round_pastes_entry) auto
  also have "concat \<dots> =
      concat (map (\<lambda>e. filter (unexpired now) (parsed (snd e)))
        (filter (\<lambda>e. ?P e \<and> json_entry pr e) (files w)))"
    by (rule concat_map_filter_if)
  also have "filter (\<lambda>e. ?P e \<and> json_entry pr e) (files w) = filter (json_entry pr) (files w)"
    by (intro filter_cong refl) (auto simp: json_entry_def)
  finally show ?thesis
    by (simp add: file_records_def filter_concat_map)
qed

lemma readdir_evicted:
  assumes "distinct (map fst (files w))" and "e \<in> set (files w)"
  shows "(\<exists>n\<in>set (fs_readdir w (DATA_DIR pr)). fst e = DATA_DIR pr @ [n] \<and> round_evicts pr now w n)
         = evicted pr now e"
proof
  assume "\<exists>n\<in>set (fs_readdir w (DATA_DIR pr)). fst e = DATA_DIR pr @ [n] \<and> round_evicts pr now w n"
  then obtain n where n: "fst e = DATA_DIR pr @ [n]" "round_evicts pr now w n" by blast
  then have "fst e \<noteq> []" "butlast (fst e) = DATA_DIR pr" "last (fst e) = n" by simp_all
  with n(2) round_evicts_entry [OF assms, of pr now] show "evicted pr now e" by simp
next
  assume ev: "evicted pr now e"
  then have p: "fst e \<noteq> []" "butlast (fst e) = DATA_DIR pr"
    by (simp_all add: evicted_def json_entry_def)
  then have path: "fst e = DATA_DIR pr @ [last (fst e)]" by (simp add: entry_path)
  have "map_of (files w) (DATA_DIR pr @ [last (fst e)]) = Some (snd e)"
    using entry_lookup [OF assms] path by simp
  then have "last (fst e) \<in> set (fs_readdir w (DATA_DIR pr))" by (rule stored_name_listed)
  moreover have "round_evicts pr now w (last (fst e))"
    using ev round_evicts_entry [OF assms p] by simp
  ultimately show "\<exists>n\<in>set (fs_readdir w (DATA_DIR pr)). fst e = DATA_DIR pr @ [n] \<and> round_evicts pr now w n"
    using path by blast
qed

lemma file_listing:
  assumes "getStorageMode pr = File" and "wf_fs w"
  shows "fst (getAllPastes pr w now) = sort_newest_first (filter (unexpired now) (file_records pr w))"
    and "files (snd (getAllPastes pr w now)) = filter (\<lambda>e. \<not> evicted pr now e) (files w)"
proof -
  let ?ns = "fs_readdir w (DATA_DIR pr)"
  from assms(2) have d: "distinct (map fst (files w))" by (simp add: wf_fs_def)
  then have dn: "distinct ?ns" by (rule readdir_distinct)
  have ns: "\<forall>n\<in>set ?ns. CHR ''/'' \<notin> set n" using assms(2) readdir_no_sep by blast
  have all: "getAllPastes pr w now =
      (sort_newest_first (fst (scan_files pr now ?ns ([], w))), snd (scan_files pr now ?ns ([], w)))"
    using assms(1) by (simp add: getAllPastes_def ensureDataDir_def split_beta Let_def)
  have "fst (scan_files pr now ?ns ([], w)) = [] @ concat (map (round_pastes pr now w) ?ns)"
    using dn ns by (rule scan_files_pastes)
  then show "fst (getAllPastes pr w now) = sort_newest_first (filter (unexpired now) (file_records pr w))"
    by (simp add: all readdir_pastes [OF d])
  have "files (snd (scan_files pr now ?ns ([], w))) =
     filter (\<lambda>e. \<not> (\<exists>n\<in>set ?ns. fst e = DATA_DIR pr @ [n] \<and> round_evicts pr now w n)) (files w)"
    using dn ns by (rule scan_files_files)
  also have "\<dots> = filter (\<lambda>e. \<not> evicted pr now e) (files w)"
    using readdir_evicted [OF d] by (intro filter_cong refl) simp
  finally show "files (snd (getAllPastes pr w now)) = filter (\<lambda>e. \<not> evicted pr now e) (files w)"
    by (simp add: all)
qed

lemma w_dir_wf: "wf_fs w_dir"
  by (simp add: wf_fs_def w_dir_def)

lemma w_dir_records:
  "filter (unexpired 3000) (file_records proc_file w_dir) = [mk_paste ''a'' 1000 None, mk_paste ''d'' 3000 (Some 9000)]"
  by (simp add: file_records_def w_dir_def json_entry_def endsWith_def parsed_def JSON_parse_def
      unexpired_def mk_paste_def)


section \<open>The properties\<close>

subsection \<open>C1: expiry on read\<close>

text \<open>
  Claim C1 has \<^verbatim>\<open>getPaste\<close> answer not-found at every time at or after
  \<open>expiresAt\<close>, on every backend.  Three inputs where the code answers with the
  record: a paste whose \<open>expiresAt\<close> is \<open>0\<close> read from memory at time 5000; a paste
  expiring at 2500, saved to Redis at time 1000 (so with a lifetime of two whole seconds)
  and read at 2999; and the same paste read from its file at time 2500 exactly.
\<close>

theorem getPaste_expiry_counterexample:
  "expiresAt (mk_paste ''abc'' 1000 (Some 0)) = Some 0 \<and> (0::int) \<le> 5000 \<and>
   fst (getPaste proc_memory (savePaste proc_memory w_empty 1000 (mk_paste ''abc'' 1000 (Some 0)))
          5000 ''abc'') = Some (mk_paste ''abc'' 1000 (Some 0)) \<and>
   expiresAt (mk_paste ''abc'' 1000 (Some 2500)) = Some 2500 \<and> (2500::int) \<le> 2999 \<and>
   fst (getPaste proc_redis (savePaste proc_redis w_empty 1000 (mk_paste ''abc'' 1000 (Some 2500)))
          2999 ''abc'') = Some (mk_paste ''abc'' 1000 (Some 2500)) \<and>
   fst (getPaste proc_file (savePaste proc_file w_empty 1000 (mk_paste ''abc'' 1000 (Some 2500)))
          2500 ''abc'') = Some (mk_paste ''abc'' 1000 (Some 2500))"
  by (simp add: getPaste_def savePaste_def memGet_def memSet_def redisGet_def redisSet_def
      redis_get_def redis_set_def redis_live_def fileGet_result fileSet_def fs_writeFile_def
      ensureDataDir_def JSON_stringify_def map_of_update_same
      expired_on_read_def mk_paste_def w_empty_def Let_def)

text \<open>
  Claim C1, amended.  For a stored paste with \<open>expiresAt = t\<close> and \<open>t \<noteq> 0\<close>: the
  memory and the file backend return the record at any time before \<open>t\<close> and leave the
  store as it is; at any time after \<open>t\<close> they answer not-found and the entry of the map,
  or the file, is gone afterwards.  The Redis backend makes no check of its own: a paste
  saved at a time \<open>saved < t\<close> is returned until \<open>saved\<close> plus the lifetime in whole
  seconds, \<open>1000 * \<lceil>(t - saved) / 1000\<rceil>\<close>, and is not found from then on.
\<close>

theorem getPaste_expiry:
  assumes "expiresAt p = Some t" and "t \<noteq> 0"
  shows
    "(getStorageMode pr = Memory \<longrightarrow> map_of (memStore w) i = Some p \<longrightarrow>
        (now < t \<longrightarrow> getPaste pr w now i = (Some p, w)) \<and>
        (t < now \<longrightarrow> fst (getPaste pr w now i) = None \<and>
                     map_of (memStore (snd (getPaste pr w now i))) i = None)) \<and>
     (getStorageMode pr = File \<longrightarrow>
        map_of (files w) (getPasteFilePath pr i) = Some (Serialized p) \<longrightarrow>
        (now < t \<longrightarrow> fst (getPaste pr w now i) = Some p \<and>
                     files (snd (getPaste pr w now i)) = files w) \<and>
        (t < now \<longrightarrow> fst (getPaste pr w now i) = None \<and>
                     map_of (files (snd (getPaste pr w now i))) (getPasteFilePath pr i) = None)) \<and>
     (getStorageMode pr = Redis \<longrightarrow> id_p p = i \<longrightarrow> saved < t \<longrightarrow>
        fst (getPaste pr (savePaste pr w saved p) now i) =
          (if now < saved + 1000 * \<lceil>real_of_int (t - saved) / 1000\<rceil> then Some p else None))"
proof (intro conjI impI)
  assume "getStorageMode pr = Memory" "map_of (memStore w) i = Some p" "now < t"
  with assms show "getPaste pr w now i = (Some p, w)"
    by (simp add: getPaste_Memory memGet_live expired_on_read_def)
next
  assume m: "getStorageMode pr = Memory" "map_of (memStore w) i = Some p" "t < now"
  with assms have "getPaste pr w now i = (None, w\<lparr>memStore := AList.delete i (memStore w)\<rparr>)"
    by (simp add: getPaste_Memory memGet_expired expired_on_read_def)
  then show "fst (getPaste pr w now i) = None"
    and "map_of (memStore (snd (getPaste pr w now i))) i = None"
    by (simp_all add: map_of_delete_same)
next
  assume f: "getStorageMode pr = File"
    "map_of (files w) (getPasteFilePath pr i) = Some (Serialized p)" "now < t"
  with assms show "fst (getPaste pr w now i) = Some p"
    and "files (snd (getPaste pr w now i)) = files w"
    by (simp_all add: getPaste_File fileGet_result fileGet_files expired_on_read_def)
next
  assume f: "getStorageMode pr = File"
    "map_of (files w) (getPasteFilePath pr i) = Some (Serialized p)" "t < now"
  with assms show "fst (getPaste pr w now i) = None"
    and "map_of (files (snd (getPaste pr w now i))) (getPasteFilePath pr i) = None"
    by (simp_all add: getPaste_File fileGet_result fileGet_files expired_on_read_def
        map_of_delete_same)
next
  assume r: "getStorageMode pr = Redis" "id_p p = i" "saved < t"
  have "0 < real_of_int (t - saved) / 1000" using r(3) by simp
  then have pos: "0 < \<lceil>real_of_int (t - saved) / 1000\<rceil>"
    by (simp only: zero_less_ceiling)
  with assms r show "fst (getPaste pr (savePaste pr w saved p) now i) =
      (if now < saved + 1000 * \<lceil>real_of_int (t - saved) / 1000\<rceil> then Some p else None)"
    by (simp add: getPaste_Redis savePaste_def redisGet_def redisSet_def redis_set_def
        redis_get_def redis_live_def Let_def)
qed

theorem getPaste_expiry_witness:
  "expiresAt (mk_paste ''abc'' 1000 (Some 2500)) = Some 2500 \<and> (2500::int) \<noteq> 0 \<and>
   map_of (memStore (memSet w_empty (mk_paste ''abc'' 1000 (Some 2500)))) ''abc'' =
     Some (mk_paste ''abc'' 1000 (Some 2500)) \<and>
   getPaste proc_memory (memSet w_empty (mk_paste ''abc'' 1000 (Some 2500))) 2499 ''abc'' =
     (Some (mk_paste ''abc'' 1000 (Some 2500)), memSet w_empty (mk_paste ''abc'' 1000 (Some 2500))) \<and>
   fst (getPaste proc_memory (memSet w_empty (mk_paste ''abc'' 1000 (Some 2500))) 2501 ''abc'') = None \<and>
   map_of (files (fileSet proc_file w_empty (mk_paste ''abc'' 1000 (Some 2500))))
       (getPasteFilePath proc_file ''abc'') = Some (Serialized (mk_paste ''abc'' 1000 (Some 2500))) \<and>
   fst (getPaste proc_file (fileSet proc_file w_empty (mk_paste ''abc'' 1000 (Some 2500))) 2499 ''abc'')
     = Some (mk_paste ''abc'' 1000 (Some 2500)) \<and>
   fst (getPaste proc_file (fileSet proc_file w_empty (mk_paste ''abc'' 1000 (Some 2500))) 2501 ''abc'')
     = None \<and>
   fst (getPaste proc_redis (savePaste proc_redis w_empty 1000 (mk_paste ''abc'' 1000 (Some 2500)))
          2999 ''abc'') = Some (mk_paste ''abc'' 1000 (Some 2500)) \<and>
   fst (getPaste proc_redis (savePaste proc_redis w_empty 1000 (mk_paste ''abc'' 1000 (Some 2500)))
          3000 ''abc'') = None"
proof -
  let ?p = "mk_paste ''abc'' 1000 (Some 2500)"
  have e: "expiresAt ?p = Some 2500" and i: "id_p ?p = ''abc''" by (simp_all add: mk_paste_def)
  have nz: "(2500::int) \<noteq> 0" by simp
  have m: "map_of (memStore (memSet w_empty ?p)) ''abc'' = Some ?p"
    by (simp add: memSet_def map_of_update_same i)
  have f: "map_of (files (fileSet proc_file w_empty ?p)) (getPasteFilePath proc_file ''abc'')
      = Some (Serialized ?p)"
    by (simp add: fileSet_def ensureDataDir_def fs_writeFile_def JSON_stringify_def
        map_of_update_same i Let_def)
  have c: "\<lceil>real_of_int (2500 - 1000) / 1000\<rceil> = 2" by simp
  show ?thesis
    using getPaste_expiry [OF e nz, of proc_memory "memSet w_empty ?p" "''abc''" 2499]
      getPaste_expiry [OF e nz, of proc_memory "memSet w_empty ?p" "''abc''" 2501]
      getPaste_expiry [OF e nz, of proc_file "fileSet proc_file w_empty ?p" "''abc''" 2499]
      getPaste_expiry [OF e nz, of proc_file "fileSet proc_file w_empty ?p" "''abc''" 2501]
      getPaste_expiry [OF e nz, where pr = proc_redis and w = w_empty and i = "''abc''"
        and now = 2999 and saved = 1000]
      getPaste_expiry [OF e nz, where pr = proc_redis and w = w_empty and i = "''abc''"
        and now = 3000 and saved = 1000]
    by (simp add: e i m f c)
qed

subsection \<open>C2: the file backend stays inside its directory\<close>

text \<open>
  Claim C2 ends with \<^verbatim>\<open>getPaste\<close> answering not-found for every identifier that holds
  a path separator.  The identifier is not rejected, it is stripped: with a paste stored
  under \<^verbatim>\<open>etcpasswd\<close>, reading \<^verbatim>\<open>../../etc/passwd\<close> returns that paste.
\<close>

theorem file_not_found_counterexample:
  "fst (getPaste proc_file (savePaste proc_file w_empty 1000 (mk_paste ''etcpasswd'' 1000 None))
          2000 ''../../etc/passwd'') = Some (mk_paste ''etcpasswd'' 1000 None)"
  by (simp add: getPaste_def savePaste_def fileGet_result fileSet_def fs_writeFile_def
      ensureDataDir_def JSON_stringify_def getPasteFilePath_eq safeId_def safe_char_def
      expired_on_read_def mk_paste_def w_empty_def Let_def)

text \<open>
  Claim C2, amended.  With the file backend selected, for every raw identifier (and every
  paste, whatever its identifier): the path of the identifier is the managed directory
  followed by one plain name, the identifier with every character outside
  \<^verbatim>\<open>[A-Za-z0-9_-]\<close> removed and \<^verbatim>\<open>.json\<close> appended.  That one file is all the
  operations touch: \<^verbatim>\<open>getPaste\<close> reads it, and unlinks it when the paste in it has
  expired; \<^verbatim>\<open>savePaste\<close> writes the paste to the path of the paste's identifier;
  \<^verbatim>\<open>deletePaste\<close> unlinks it and returns whether it was there; every other file, so
  every file that is not directly inside the managed directory, is left as it was.
  \<^verbatim>\<open>getPaste\<close> answers not-found when no file is stored under the stripped identifier,
  when the file does not parse and when the paste in it has expired; otherwise it
  returns the paste stored in that file.  Expired is the test of the reader:
  \<open>expiresAt\<close> is present, is not \<open>0\<close> and is earlier than the time of the call.
\<close>

theorem file_backend_confined:
  assumes "getStorageMode pr = File"
  shows "directly_inside (DATA_DIR pr) (getPasteFilePath pr i) \<and>
         getPasteFilePath pr i = DATA_DIR pr @ [filter safe_char i @ ''.json''] \<and>
         confined pr w (snd (getPaste pr w now i)) \<and>
         confined pr w (savePaste pr w now paste) \<and>
         confined pr w (snd (deletePaste pr w now i)) \<and>
         (\<forall>q. \<not> directly_inside (DATA_DIR pr) q \<longrightarrow>
            map_of (files (snd (getPaste pr w now i))) q = map_of (files w) q \<and>
            map_of (files (savePaste pr w now paste)) q = map_of (files w) q \<and>
            map_of (files (snd (deletePaste pr w now i))) q = map_of (files w) q) \<and>
         (map_of (files w) (getPasteFilePath pr i) = None \<longrightarrow> fst (getPaste pr w now i) = None) \<and>
         fst (getPaste pr w now i) =
           (case map_of (files w) (getPasteFilePath pr i) of
              Some (Serialized p) \<Rightarrow> if expired_on_read now p then None else Some p
            | _ \<Rightarrow> None) \<and>
         new_accesses w (snd (getPaste pr w now i)) =
           (case map_of (files w) (getPasteFilePath pr i) of
              Some (Serialized p) \<Rightarrow>
                if expired_on_read now p
                then [ReadFile (getPasteFilePath pr i), Unlink (getPasteFilePath pr i)]
                else [ReadFile (getPasteFilePath pr i)]
            | _ \<Rightarrow> [ReadFile (getPasteFilePath pr i)]) \<and>
         new_accesses w (savePaste pr w now paste) = [WriteFile (getPasteFilePath pr (id_p paste))] \<and>
         new_accesses w (snd (deletePaste pr w now i)) = [Unlink (getPasteFilePath pr i)] \<and>
         (\<forall>q. q \<noteq> getPasteFilePath pr i \<longrightarrow>
            map_of (files (snd (getPaste pr w now i))) q = map_of (files w) q \<and>
            map_of (files (snd (deletePaste pr w now i))) q = map_of (files w) q) \<and>
         (\<forall>q. q \<noteq> getPasteFilePath pr (id_p paste) \<longrightarrow>
            map_of (files (savePaste pr w now paste)) q = map_of (files w) q) \<and>
         map_of (files (savePaste pr w now paste)) (getPasteFilePath pr (id_p paste)) =
           Some (Serialized paste) \<and>
         fst (deletePaste pr w now i) = (map_of (files w) (getPasteFilePath pr i) \<noteq> None) \<and>
         map_of (files (snd (deletePaste pr w now i))) (getPasteFilePath pr i) = None"
proof -
  have ops: "getPaste pr w now i = fileGet pr w now i"
    "savePaste pr w now paste = fileSet pr w paste"
    "deletePaste pr w now i = fs_unlink w (getPasteFilePath pr i)"
    using assms by (simp_all add: getPaste_def savePaste_def deletePaste_def)
  have frame: "map_of (files (snd (fileGet pr w now i))) q = map_of (files w) q \<and>
      map_of (files (fileSet pr w paste)) q = map_of (files w) q \<and>
      map_of (files (snd (fs_unlink w (getPasteFilePath pr i)))) q = map_of (files w) q"
    if "\<not> directly_inside (DATA_DIR pr) q" for q
  proof -
    from that have "q \<noteq> getPasteFilePath pr i" "q \<noteq> getPasteFilePath pr (id_p paste)"
      using getPasteFilePath_inside by blast+
    then show ?thesis by (simp add: fileGet_frame fileSet_frame unlink_frame)
  qed
  have absent: "map_of (files w) (getPasteFilePath pr i) = None \<Longrightarrow> fst (fileGet pr w now i) = None"
    by (simp add: fileGet_result)
  have path: "getPasteFilePath pr i = DATA_DIR pr @ [filter safe_char i @ ''.json'']"
    by (simp add: getPasteFilePath_eq safeId_def)
  have one: "map_of (files (snd (fileGet pr w now i))) q = map_of (files w) q \<and>
      map_of (files (snd (fs_unlink w (getPasteFilePath pr i)))) q = map_of (files w) q"
    if "q \<noteq> getPasteFilePath pr i" for q
    using that by (simp add: fileGet_frame unlink_frame)
  have one': "map_of (files (fileSet pr w paste)) q = map_of (files w) q"
    if "q \<noteq> getPasteFilePath pr (id_p paste)" for q
    using that by (rule fileSet_frame)
  show ?thesis
    unfolding ops
    using frame absent path one one' getPasteFilePath_inside [of pr i]
      fileGet_confined [of pr w now i] fileSet_confined [of pr w paste] unlink_confined [of pr w i]
      fileGet_result [of pr w now i] fileGet_new_accesses [of w pr now i]
      fileSet_new_accesses [of w pr paste] unlink_new_accesses [of w "getPasteFilePath pr i"]
      fileSet_stored [of pr w paste] unlink_result [of w "getPasteFilePath pr i"]
    by (intro conjI) blast+
qed

theorem file_backend_confined_witness:
  "getStorageMode proc_file = File \<and>
   getPasteFilePath proc_file ''../../etc/passwd'' =
     [''srv'', ''app'', ''data'', ''pastes'', ''etcpasswd.json''] \<and>
   confined proc_file w_dir (snd (getPaste proc_file w_dir 3000 ''../../etc/passwd'')) \<and>
   confined proc_file w_dir (savePaste proc_file w_dir 3000 (mk_paste ''../../etc/passwd'' 3000 None)) \<and>
   confined proc_file w_dir (snd (deletePaste proc_file w_dir 3000 ''../../etc/passwd'')) \<and>
   \<not> directly_inside (DATA_DIR proc_file) [''etc'', ''passwd''] \<and>
   map_of (files (savePaste proc_file w_dir 3000 (mk_paste ''../../etc/passwd'' 3000 None)))
     [''etc'', ''passwd''] = Some (Malformed ''root'') \<and>
   map_of (files (snd (deletePaste proc_file w_dir 3000 ''../../etc/passwd'')))
     [''etc'', ''passwd''] = Some (Malformed ''root'') \<and>
   map_of (files w_dir) (getPasteFilePath proc_file ''../../etc/passwd'') = None \<and>
   fst (getPaste proc_file w_dir 3000 ''../../etc/passwd'') = None \<and>
   new_accesses w_dir (snd (getPaste proc_file w_dir 3000 ''../../etc/passwd'')) =
     [ReadFile [''srv'', ''app'', ''data'', ''pastes'', ''etcpasswd.json''] ] \<and>
   new_accesses w_dir (savePaste proc_file w_dir 3000 (mk_paste ''../../etc/passwd'' 3000 None)) =
     [WriteFile [''srv'', ''app'', ''data'', ''pastes'', ''etcpasswd.json''] ] \<and>
   fst (deletePaste proc_file w_dir 3000 ''../../etc/passwd'') = False \<and>
   fst (getPaste proc_file w_dir 3000 ''../a'') = Some (mk_paste ''a'' 1000 None) \<and>
   new_accesses w_dir (snd (getPaste proc_file w_dir 3000 ''../a'')) =
     [ReadFile [''srv'', ''app'', ''data'', ''pastes'', ''a.json''] ] \<and>
   fst (deletePaste proc_file w_dir 3000 ''../a'') = True \<and>
   fst (getPaste proc_file w_dir 3000 ''b/..'') = None \<and>
   new_accesses w_dir (snd (getPaste proc_file w_dir 3000 ''b/..'')) =
     [ReadFile [''srv'', ''app'', ''data'', ''pastes'', ''b.json''],
      Unlink [''srv'', ''app'', ''data'', ''pastes'', ''b.json''] ] \<and>
   map_of (files (snd (getPaste proc_file w_dir 3000 ''b/..'')))
     [''srv'', ''app'', ''data'', ''pastes'', ''a.json''] = Some (Serialized (mk_paste ''a'' 1000 None)) \<and>
   fst (getPaste proc_file w_dir 3000 ''../c'') = None"
proof -
  have out: "\<not> directly_inside (DATA_DIR proc_file) [''etc'', ''passwd'']"
    by (simp add: directly_inside_def)
  have path: "getPasteFilePath proc_file ''../../etc/passwd'' =
      [''srv'', ''app'', ''data'', ''pastes'', ''etcpasswd.json'']"
    "getPasteFilePath proc_file ''../a'' = [''srv'', ''app'', ''data'', ''pastes'', ''a.json'']"
    "getPasteFilePath proc_file ''b/..'' = [''srv'', ''app'', ''data'', ''pastes'', ''b.json'']"
    "getPasteFilePath proc_file ''../c'' = [''srv'', ''app'', ''data'', ''pastes'', ''c.json'']"
    "getPasteFilePath proc_file (id_p (mk_paste ''../../etc/passwd'' 3000 None)) =
      [''srv'', ''app'', ''data'', ''pastes'', ''etcpasswd.json'']"
    by (simp_all add: getPasteFilePath_eq safeId_def safe_char_def mk_paste_def)
  have old: "map_of (files w_dir) [''etc'', ''passwd''] = Some (Malformed ''root'')"
    and none: "map_of (files w_dir) [''srv'', ''app'', ''data'', ''pastes'', ''etcpasswd.json''] = None"
    and a: "map_of (files w_dir) [''srv'', ''app'', ''data'', ''pastes'', ''a.json''] =
        Some (Serialized (mk_paste ''a'' 1000 None))"
    and b: "map_of (files w_dir) [''srv'', ''app'', ''data'', ''pastes'', ''b.json''] =
        Some (Serialized (mk_paste ''b'' 2000 (Some 2500)))"
    and c: "map_of (files w_dir) [''srv'', ''app'', ''data'', ''pastes'', ''c.json''] =
        Some (Malformed ''{'')"
    by (simp_all add: w_dir_def)
  have ex: "\<not> expired_on_read 3000 (mk_paste ''a'' 1000 None)"
    "expired_on_read 3000 (mk_paste ''b'' 2000 (Some 2500))"
    by (simp_all add: expired_on_read_def mk_paste_def)
  show ?thesis
    using file_backend_confined [of proc_file "''../../etc/passwd''" w_dir 3000
        "mk_paste ''../../etc/passwd'' 3000 None"]
      file_backend_confined [of proc_file "''../a''" w_dir 3000 "mk_paste ''a'' 1000 None"]
      file_backend_confined [of proc_file "''b/..''" w_dir 3000 "mk_paste ''a'' 1000 None"]
      file_backend_confined [of proc_file "''../c''" w_dir 3000 "mk_paste ''a'' 1000 None"]
      out
    by (simp add: path old none a b c ex safe_char_def)
qed

subsection \<open>C3: a saved paste is read back\<close>

text \<open>
  Claim C3.  For every backend, every world and every paste \<open>p\<close> whose expiry has not
  passed at the time of the read, \<^verbatim>\<open>savePaste(p)\<close> followed by \<^verbatim>\<open>getPaste(p.id)\<close>
  returns \<open>p\<close> itself, all six fields.
\<close>

theorem save_then_get_round_trip:
  assumes "expiry_not_passed now' p"
  shows "fst (getPaste pr (savePaste pr w now p) now' (id_p p)) = Some p"
  using assms
  by (cases "getStorageMode pr")
     (simp_all add: getPaste_def savePaste_def memory_round_trip file_round_trip redis_round_trip)

theorem save_then_get_round_trip_witness:
  "expiry_not_passed 2000 (mk_paste ''abc'' 1000 (Some 2500)) \<and>
   fst (getPaste proc_file (savePaste proc_file w_dir 1000 (mk_paste ''abc'' 1000 (Some 2500)))
          2000 ''abc'') = Some (mk_paste ''abc'' 1000 (Some 2500)) \<and>
   fst (getPaste proc_redis (savePaste proc_redis w_dir 1000 (mk_paste ''abc'' 1000 (Some 2500)))
          2000 ''abc'') = Some (mk_paste ''abc'' 1000 (Some 2500)) \<and>
   fst (getPaste proc_memory (savePaste proc_memory w_dir 1000 (mk_paste ''abc'' 1000 (Some 2500)))
          2000 ''abc'') = Some (mk_paste ''abc'' 1000 (Some 2500))"
proof -
  have h: "expiry_not_passed 2000 (mk_paste ''abc'' 1000 (Some 2500))"
    by (simp add: expiry_not_passed_def mk_paste_def)
  have i: "id_p (mk_paste ''abc'' 1000 (Some 2500)) = ''abc''" by (simp add: mk_paste_def)
  show ?thesis
    using h save_then_get_round_trip [OF h, of proc_file w_dir 1000]
      save_then_get_round_trip [OF h, of proc_redis w_dir 1000]
      save_then_get_round_trip [OF h, of proc_memory w_dir 1000]
    by (simp add: i)
qed

subsection \<open>C4: selecting the backend\<close>

text \<open>
  Claim C4.  The mode is a function of the configuration alone.  An override naming
  \<^verbatim>\<open>redis\<close>, \<^verbatim>\<open>file\<close> or \<^verbatim>\<open>memory\<close> is used; any other override, or none, leaves the
  choice to the two credential settings: Redis when both are present (set and not
  empty), the file backend otherwise.  The memory backend is chosen only by the override.
\<close>

theorem getStorageMode_selection:
  "(STORAGE_MODE pr = Some ''redis'' \<longrightarrow> getStorageMode pr = Redis) \<and>
   (STORAGE_MODE pr = Some ''file'' \<longrightarrow> getStorageMode pr = File) \<and>
   (STORAGE_MODE pr = Some ''memory'' \<longrightarrow> getStorageMode pr = Memory) \<and>
   (STORAGE_MODE pr \<notin> {Some ''redis'', Some ''file'', Some ''memory''} \<longrightarrow>
      getStorageMode pr =
        (if truthy_str (UPSTASH_REDIS_REST_URL pr) \<and> truthy_str (UPSTASH_REDIS_REST_TOKEN pr)
         then Redis else File)) \<and>
   (getStorageMode pr = Memory \<longrightarrow> STORAGE_MODE pr = Some ''memory'')"
  by (auto simp: getStorageMode_def mode_of_string_def Let_def split: option.splits if_splits)

theorem getStorageMode_selection_witness:
  "getStorageMode \<lparr>STORAGE_MODE = Some ''memory'', UPSTASH_REDIS_REST_URL = Some ''u'',
      UPSTASH_REDIS_REST_TOKEN = Some ''t'', cwd = [''srv'']\<rparr> = Memory \<and>
   getStorageMode \<lparr>STORAGE_MODE = Some ''file'', UPSTASH_REDIS_REST_URL = Some ''u'',
      UPSTASH_REDIS_REST_TOKEN = Some ''t'', cwd = [''srv'']\<rparr> = File \<and>
   getStorageMode \<lparr>STORAGE_MODE = Some ''redis'', UPSTASH_REDIS_REST_URL = None,
      UPSTASH_REDIS_REST_TOKEN = None, cwd = [''srv'']\<rparr> = Redis \<and>
   getStorageMode \<lparr>STORAGE_MODE = Some ''disk'', UPSTASH_REDIS_REST_URL = Some ''u'',
      UPSTASH_REDIS_REST_TOKEN = Some ''t'', cwd = [''srv'']\<rparr> = Redis \<and>
   getStorageMode \<lparr>STORAGE_MODE = None, UPSTASH_REDIS_REST_URL = Some ''u'',
      UPSTASH_REDIS_REST_TOKEN = None, cwd = [''srv'']\<rparr> = File"
  using
    getStorageMode_selection [of "\<lparr>STORAGE_MODE = Some ''memory'', UPSTASH_REDIS_REST_URL = Some ''u'',
      UPSTASH_REDIS_REST_TOKEN = Some ''t'', cwd = [''srv'']\<rparr>"]
    getStorageMode_selection [of "\<lparr>STORAGE_MODE = Some ''file'', UPSTASH_REDIS_REST_URL = Some ''u'',
      UPSTASH_REDIS_REST_TOKEN = Some ''t'', cwd = [''srv'']\<rparr>"]
    getStorageMode_selection [of "\<lparr>STORAGE_MODE = Some ''redis'', UPSTASH_REDIS_REST_URL = None,
      UPSTASH_REDIS_REST_TOKEN = None, cwd = [''srv'']\<rparr>"]
    getStorageMode_selection [of "\<lparr>STORAGE_MODE = Some ''disk'', UPSTASH_REDIS_REST_URL = Some ''u'',
      UPSTASH_REDIS_REST_TOKEN = Some ''t'', cwd = [''srv'']\<rparr>"]
    getStorageMode_selection [of "\<lparr>STORAGE_MODE = None, UPSTASH_REDIS_REST_URL = Some ''u'',
      UPSTASH_REDIS_REST_TOKEN = None, cwd = [''srv'']\<rparr>"]
  by (simp add: truthy_str_def)

subsection \<open>C5: the lifetime given to Redis\<close>

text \<open>
  Claim C5.  On a clock that is not before the epoch (\<open>0 \<le> now\<close>): for a paste with
  \<open>expiresAt = t\<close> the remaining seconds are \<open>\<lceil>(t - now) / 1000\<rceil>\<close>; when they are
  positive the record is written under \<^verbatim>\<open>paste:\<close> and its identifier with that lifetime,
  when they are not it is written with no lifetime; a paste without \<open>expiresAt\<close> is
  written with no lifetime.
\<close>

theorem redisSet_ttl:
  assumes "0 \<le> now"
  shows "redisSet w now paste =
     (case expiresAt paste of
        None \<Rightarrow> redis_set w now (''paste:'' @ id_p paste) paste None
      | Some t \<Rightarrow>
          (if 0 < \<lceil>real_of_int (t - now) / 1000\<rceil>
           then redis_set w now (''paste:'' @ id_p paste) paste
                  (Some \<lceil>real_of_int (t - now) / 1000\<rceil>)
           else redis_set w now (''paste:'' @ id_p paste) paste None))"
proof (cases "expiresAt paste")
  case None
  then show ?thesis by (simp add: redisSet_def)
next
  case (Some t)
  show ?thesis
  proof (cases "t = 0")
    case True
    have "real_of_int (- now) / 1000 \<le> 0" using assms by simp
    then have "\<lceil>real_of_int (- now) / 1000\<rceil> \<le> 0" by (simp add: ceiling_le_zero)
    with Some True show ?thesis by (simp add: redisSet_def)
  next
    case False
    with Some show ?thesis by (simp add: redisSet_def Let_def)
  qed
qed

theorem redisSet_ttl_witness:
  "(0::int) \<le> 1000 \<and>
   redis (redisSet w_empty 1000 (mk_paste ''abc'' 1000 (Some 2500))) ''paste:abc'' =
     Some (mk_paste ''abc'' 1000 (Some 2500), Some 3000) \<and>
   redis (redisSet w_empty 1000 (mk_paste ''abc'' 1000 (Some 900))) ''paste:abc'' =
     Some (mk_paste ''abc'' 1000 (Some 900), None) \<and>
   redis (redisSet w_empty 1000 (mk_paste ''abc'' 1000 None)) ''paste:abc'' =
     Some (mk_paste ''abc'' 1000 None, None)"
proof -
  have h: "(0::int) \<le> 1000" by simp
  show ?thesis
    using redisSet_ttl [OF h, of w_empty "mk_paste ''abc'' 1000 (Some 2500)"]
      redisSet_ttl [OF h, of w_empty "mk_paste ''abc'' 1000 (Some 900)"]
      redisSet_ttl [OF h, of w_empty "mk_paste ''abc'' 1000 None"]
    by (simp add: redis_set_def mk_paste_def)
qed

subsection \<open>C6: identifiers that strip to nothing\<close>

text \<open>
  Claim C6 has the operations treat an identifier whose stripped form is empty as
  not-found, without touching a shared file.  There is no such guard: after saving a paste
  under \<^verbatim>\<open>!!\<close>, reading \<^verbatim>\<open>??\<close> reads the file \<^verbatim>\<open>.json\<close> of the managed directory and
  returns that paste.
\<close>

theorem empty_safeId_counterexample:
  "''??'' \<noteq> [] \<and> safeId ''??'' = [] \<and>
   getPaste proc_file (savePaste proc_file w_empty 1000 (mk_paste ''!!'' 1000 None)) 2000 ''??'' =
     (Some (mk_paste ''!!'' 1000 None),
      \<lparr>memStore = [],
       files = [([''srv'', ''app'', ''data'', ''pastes'', ''.json''],
                 Serialized (mk_paste ''!!'' 1000 None))],
       fs_log = [WriteFile [''srv'', ''app'', ''data'', ''pastes'', ''.json''],
                 ReadFile [''srv'', ''app'', ''data'', ''pastes'', ''.json''] ],
       redis = Map.empty\<rparr>)"
  by (simp add: getPaste_def savePaste_def fileGet_def fs_readFile_def fileSet_def fs_writeFile_def
      ensureDataDir_def JSON_stringify_def JSON_parse_def getPasteFilePath_eq safeId_def safe_char_def
      expired_on_read_def mk_paste_def w_empty_def Let_def)

text \<open>
  Claim C6, amended.  With the file backend selected, every identifier whose stripped form
  is empty denotes the one file \<^verbatim>\<open>.json\<close> directly inside the managed directory:
  \<^verbatim>\<open>getPaste\<close> reads that file and returns the record stored there (not-found only when
  the file is missing, does not parse, or holds a paste that has expired), \<^verbatim>\<open>savePaste\<close>
  of a paste with such an identifier writes it, and \<^verbatim>\<open>deletePaste\<close> removes it.
\<close>

theorem empty_safeId_shared_file:
  assumes "safeId i = []" and "getStorageMode pr = File"
  shows "getPasteFilePath pr i = DATA_DIR pr @ [''.json''] \<and>
         fst (getPaste pr w now i) =
           (case map_of (files w) (DATA_DIR pr @ [''.json'']) of
              Some (Serialized p) \<Rightarrow> if expired_on_read now p then None else Some p
            | _ \<Rightarrow> None) \<and>
         ReadFile (DATA_DIR pr @ [''.json'']) \<in> set (new_accesses w (snd (getPaste pr w now i))) \<and>
         (id_p paste = i \<longrightarrow>
            map_of (files (savePaste pr w now paste)) (DATA_DIR pr @ [''.json'']) =
              Some (Serialized paste)) \<and>
         map_of (files (snd (deletePaste pr w now i))) (DATA_DIR pr @ [''.json'']) = None"
proof -
  have fp: "getPasteFilePath pr i = DATA_DIR pr @ [''.json'']"
    using assms(1) by (simp add: getPasteFilePath_eq)
  have "ReadFile (getPasteFilePath pr i) \<in> set (new_accesses w (snd (fileGet pr w now i)))"
    using fileGet_accesses [of pr w now i] by (auto simp: new_accesses_def)
  moreover have "id_p paste = i \<Longrightarrow>
      map_of (files (fileSet pr w paste)) (getPasteFilePath pr i) = Some (Serialized paste)"
    by (simp add: fileSet_def ensureDataDir_def fs_writeFile_def map_of_update_same
        JSON_stringify_def Let_def)
  moreover have
    "map_of (files (snd (fs_unlink w (getPasteFilePath pr i)))) (getPasteFilePath pr i) = None"
    by (simp add: fs_unlink_def map_of_delete_same)
  ultimately show ?thesis
    using assms(2) fileGet_result [of pr w now i]
    by (simp add: getPaste_def savePaste_def deletePaste_def fp)
qed

theorem empty_safeId_shared_file_witness:
  "safeId ''??'' = [] \<and> getStorageMode proc_file = File \<and>
   getPasteFilePath proc_file ''??'' = [''srv'', ''app'', ''data'', ''pastes'', ''.json''] \<and>
   fst (getPaste proc_file w_dir 3000 ''??'') = None \<and>
   id_p (mk_paste ''??'' 3000 None) = ''??'' \<and>
   map_of (files (savePaste proc_file w_dir 3000 (mk_paste ''??'' 3000 None)))
     [''srv'', ''app'', ''data'', ''pastes'', ''.json''] = Some (Serialized (mk_paste ''??'' 3000 None)) \<and>
   map_of (files (snd (deletePaste proc_file w_dir 3000 ''??'')))
     [''srv'', ''app'', ''data'', ''pastes'', ''.json''] = None"
proof -
  have s: "safeId ''??'' = []" by (simp add: safeId_def safe_char_def)
  have i: "id_p (mk_paste ''??'' 3000 None) = ''??''" by (simp add: mk_paste_def)
  have none: "map_of (files w_dir) [''srv'', ''app'', ''data'', ''pastes'', ''.json''] = None"
    by (simp add: w_dir_def)
  show ?thesis
    using empty_safeId_shared_file [OF s modes(2), of w_dir 3000 "mk_paste ''??'' 3000 None"]
    by (simp add: s i none)
qed

subsection \<open>C7: listing\<close>

text \<open>
  Claim C7 has the listing strictly ordered, each \<open>createdAt\<close> greater than the next.
  Two pastes created in the same millisecond are both listed, one after the other.
\<close>

theorem listing_strict_counterexample:
  "fst (getAllPastes proc_memory
          (savePaste proc_memory (savePaste proc_memory w_empty 1000 (mk_paste ''a'' 1000 None))
             1000 (mk_paste ''b'' 1000 None)) 1000) =
     [mk_paste ''a'' 1000 None, mk_paste ''b'' 1000 None] \<and>
   \<not> createdAt (mk_paste ''b'' 1000 None) < createdAt (mk_paste ''a'' 1000 None)"
  by (simp add: getAllPastes_def savePaste_def memSet_def sort_newest_first_def unexpired_def
      mk_paste_def w_empty_def)

text \<open>
  Claim C7, amended.  For the memory backend the listing holds exactly the stored records
  that pass the test of the loop (\<open>expiresAt\<close> absent, \<open>0\<close>, or later than the time of
  the call), each as often as it is stored, ordered by \<open>createdAt\<close> descending with
  equal values allowed next to each other, and the store is unchanged.  For the file
  backend on a well-formed file system the same holds of the records parsed from the
  \<^verbatim>\<open>.json\<close> files directly inside the managed directory; the files left afterwards are
  all files but those among them whose paste fails the test, so a file that does not
  parse, or is of another kind, is skipped and kept.
\<close>

theorem getAllPastes_listing:
  "(getStorageMode pr = Memory \<longrightarrow>
      mset (fst (getAllPastes pr w now)) = mset (filter (unexpired now) (map snd (memStore w))) \<and>
      newest_first (fst (getAllPastes pr w now)) \<and>
      snd (getAllPastes pr w now) = w) \<and>
   (getStorageMode pr = File \<longrightarrow> wf_fs w \<longrightarrow>
      mset (fst (getAllPastes pr w now)) = mset (filter (unexpired now) (file_records pr w)) \<and>
      newest_first (fst (getAllPastes pr w now)) \<and>
      files (snd (getAllPastes pr w now)) = filter (\<lambda>e. \<not> evicted pr now e) (files w))"
proof (intro conjI impI)
  assume m: "getStorageMode pr = Memory"
  then have "getAllPastes pr w now =
      (sort_newest_first (filter (unexpired now) (map snd (memStore w))), w)"
    by (simp add: getAllPastes_def)
  then show "mset (fst (getAllPastes pr w now)) = mset (filter (unexpired now) (map snd (memStore w)))"
    and "newest_first (fst (getAllPastes pr w now))"
    and "snd (getAllPastes pr w now) = w"
    by (simp_all add: mset_sort_newest_first newest_first_sort)
next
  assume f: "getStorageMode pr = File" "wf_fs w"
  then show "mset (fst (getAllPastes pr w now)) = mset (filter (unexpired now) (file_records pr w))"
    and "newest_first (fst (getAllPastes pr w now))"
    and "files (snd (getAllPastes pr w now)) = filter (\<lambda>e. \<not> evicted pr now e) (files w)"
    by (simp_all add: file_listing mset_sort_newest_first newest_first_sort)
qed

theorem getAllPastes_listing_witness:
  "getStorageMode proc_file = File \<and> wf_fs w_dir \<and>
   mset (fst (getAllPastes proc_file w_dir 3000)) =
     mset [mk_paste ''a'' 1000 None, mk_paste ''d'' 3000 (Some 9000)] \<and>
   newest_first (fst (getAllPastes proc_file w_dir 3000)) \<and>
   map fst (files (snd (getAllPastes proc_file w_dir 3000))) =
     [ [''srv'', ''app'', ''data'', ''pastes'', ''a.json''],
      [''srv'', ''app'', ''data'', ''pastes'', ''c.json''],
      [''srv'', ''app'', ''data'', ''pastes'', ''notes.txt''],
      [''srv'', ''app'', ''data'', ''pastes'', ''d.json''],
      [''etc'', ''passwd''] ] \<and>
   getStorageMode proc_memory = Memory \<and>
   newest_first (fst (getAllPastes proc_memory w_dir 3000))"
proof -
  have ev: "filter (\<lambda>e. \<not> evicted proc_file 3000 e) (files w_dir) =
      [([''srv'', ''app'', ''data'', ''pastes'', ''a.json''], Serialized (mk_paste ''a'' 1000 None)),
       ([''srv'', ''app'', ''data'', ''pastes'', ''c.json''], Malformed ''{''),
       ([''srv'', ''app'', ''data'', ''pastes'', ''notes.txt''], Malformed ''todo''),
       ([''srv'', ''app'', ''data'', ''pastes'', ''d.json''],
          Serialized (mk_paste ''d'' 3000 (Some 9000))),
       ([''etc'', ''passwd''], Malformed ''root'')]"
    by (simp add: evicted_def w_dir_def json_entry_def endsWith_def parsed_def JSON_parse_def
        unexpired_def mk_paste_def)
  show ?thesis
    using getAllPastes_listing [of proc_file w_dir 3000]
      getAllPastes_listing [of proc_memory w_dir 3000]
    by (simp add: w_dir_wf w_dir_records ev)
qed

subsection \<open>C8: deleting twice\<close>

text \<open>
  Claim C8.  Whatever the backend, when it holds a record for an identifier, the first
  \<^verbatim>\<open>deletePaste\<close> returns true, a second one returns false, the backend holds no record
  for the identifier after either call, and \<^verbatim>\<open>getPaste\<close> after the first answers
  not-found.
\<close>

theorem deletePaste_twice:
  assumes "holds_record pr w now i"
  shows "fst (deletePaste pr w now i) = True \<and>
         fst (deletePaste pr (snd (deletePaste pr w now i)) now' i) = False \<and>
         \<not> holds_record pr (snd (deletePaste pr w now i)) now' i \<and>
         \<not> holds_record pr (snd (deletePaste pr (snd (deletePaste pr w now i)) now' i)) now'' i \<and>
         fst (getPaste pr (snd (deletePaste pr w now i)) now' i) = None"
proof (cases "getStorageMode pr")
  case Redis
  with assms show ?thesis
    by (simp add: holds_record_def deletePaste_def getPaste_def redisGet_def redis_del_def
        redis_get_def)
next
  case File
  with assms show ?thesis
    by (simp add: holds_record_def deletePaste_def getPaste_def fileGet_def fs_unlink_def
        fs_readFile_def map_of_delete_same Let_def)
next
  case Memory
  with assms show ?thesis
    by (simp add: holds_record_def deletePaste_def getPaste_def memGet_def map_of_delete_same)
qed

theorem deletePaste_twice_witness:
  "holds_record proc_file w_dir 3000 ''a'' \<and>
   fst (deletePaste proc_file w_dir 3000 ''a'') = True \<and>
   fst (deletePaste proc_file (snd (deletePaste proc_file w_dir 3000 ''a'')) 3001 ''a'') = False \<and>
   \<not> holds_record proc_file (snd (deletePaste proc_file w_dir 3000 ''a'')) 3001 ''a'' \<and>
   holds_record proc_memory (memSet w_empty (mk_paste ''a'' 1000 None)) 3000 ''a'' \<and>
   fst (deletePaste proc_memory (memSet w_empty (mk_paste ''a'' 1000 None)) 3000 ''a'') = True \<and>
   holds_record proc_redis (redisSet w_empty 1000 (mk_paste ''a'' 1000 None)) 3000 ''a'' \<and>
   fst (deletePaste proc_redis (redisSet w_empty 1000 (mk_paste ''a'' 1000 None)) 3000 ''a'') = True"
proof -
  have f: "holds_record proc_file w_dir 3000 ''a''"
    by (simp add: holds_record_def getPasteFilePath_eq safeId_def safe_char_def w_dir_def)
  have m: "holds_record proc_memory (memSet w_empty (mk_paste ''a'' 1000 None)) 3000 ''a''"
    by (simp add: holds_record_def memSet_def mk_paste_def w_empty_def)
  have r: "holds_record proc_redis (redisSet w_empty 1000 (mk_paste ''a'' 1000 None)) 3000 ''a''"
    by (simp add: holds_record_def redisSet_def redis_set_def redis_get_def redis_live_def
        mk_paste_def w_empty_def)
  show ?thesis
    using f m r deletePaste_twice [OF f, of 3001 3002] deletePaste_twice [OF m, of 3001 3002]
      deletePaste_twice [OF r, of 3001 3002]
    by simp
qed

subsection \<open>C9: an expiry of zero\<close>

text \<open>
  Claim C9.  A stored paste whose \<open>expiresAt\<close> is \<open>0\<close> never expires: the memory and
  the file backend return it at every time and leave the store as it is, the listing of
  either includes it, and the Redis backend writes it with no lifetime.
\<close>

theorem expiresAt_zero_never_expires:
  assumes "expiresAt p = Some 0"
  shows "(getStorageMode pr = Memory \<longrightarrow> map_of (memStore w) i = Some p \<longrightarrow>
            getPaste pr w now i = (Some p, w) \<and> p \<in> set (fst (getAllPastes pr w now))) \<and>
         (getStorageMode pr = File \<longrightarrow>
            map_of (files w) (getPasteFilePath pr i) = Some (Serialized p) \<longrightarrow>
            fst (getPaste pr w now i) = Some p \<and>
            files (snd (getPaste pr w now i)) = files w \<and>
            p \<in> set (fst (getAllPastes pr w now))) \<and>
         redisSet w now p = redis_set w now (''paste:'' @ id_p p) p None"
proof -
  from assms have live: "\<not> expired_on_read now p" and un: "unexpired now p"
    by (simp_all add: expired_on_read_def unexpired_def)
  have "redisSet w now p = redis_set w now (''paste:'' @ id_p p) p None"
    using assms by (simp add: redisSet_def)
  then show ?thesis
    using live un
    by (simp add: getPaste_Memory getPaste_File memGet_live fileGet_result fileGet_files
        memory_listing_keeps file_listing_keeps)
qed

theorem expiresAt_zero_never_expires_witness:
  "expiresAt (mk_paste ''z'' 1000 (Some 0)) = Some 0 \<and>
   map_of (memStore (memSet w_empty (mk_paste ''z'' 1000 (Some 0)))) ''z'' =
     Some (mk_paste ''z'' 1000 (Some 0)) \<and>
   fst (getPaste proc_memory (memSet w_empty (mk_paste ''z'' 1000 (Some 0))) 99999 ''z'') =
     Some (mk_paste ''z'' 1000 (Some 0)) \<and>
   mk_paste ''z'' 1000 (Some 0) \<in>
     set (fst (getAllPastes proc_memory (memSet w_empty (mk_paste ''z'' 1000 (Some 0))) 99999)) \<and>
   map_of (files (fileSet proc_file w_dir (mk_paste ''z'' 1000 (Some 0))))
     (getPasteFilePath proc_file ''z'') = Some (Serialized (mk_paste ''z'' 1000 (Some 0))) \<and>
   fst (getPaste proc_file (fileSet proc_file w_dir (mk_paste ''z'' 1000 (Some 0))) 99999 ''z'') =
     Some (mk_paste ''z'' 1000 (Some 0)) \<and>
   mk_paste ''z'' 1000 (Some 0) \<in>
     set (fst (getAllPastes proc_file (fileSet proc_file w_dir (mk_paste ''z'' 1000 (Some 0))) 99999)) \<and>
   redis (redisSet w_empty 99999 (mk_paste ''z'' 1000 (Some 0))) ''paste:z'' =
     Some (mk_paste ''z'' 1000 (Some 0), None)"
proof -
  let ?p = "mk_paste ''z'' 1000 (Some 0)"
  have e: "expiresAt ?p = Some 0" and i: "id_p ?p = ''z''" by (simp_all add: mk_paste_def)
  have m: "map_of (memStore (memSet w_empty ?p)) ''z'' = Some ?p"
    by (simp add: memSet_def map_of_update_same i)
  have f: "map_of (files (fileSet proc_file w_dir ?p)) (getPasteFilePath proc_file ''z'')
      = Some (Serialized ?p)"
    by (simp add: fileSet_def ensureDataDir_def fs_writeFile_def JSON_stringify_def
        map_of_update_same i Let_def)
  have r: "redis (redis_set w_empty 99999 ''paste:z'' ?p None) ''paste:z'' = Some (?p, None)"
    by (simp add: redis_set_def)
  show ?thesis
    using expiresAt_zero_never_expires [OF e, of proc_memory "memSet w_empty ?p" "''z''" 99999]
      expiresAt_zero_never_expires [OF e, of proc_file "fileSet proc_file w_dir ?p" "''z''" 99999]
      expiresAt_zero_never_expires [OF e, of proc_file w_empty "''z''" 99999]
    by (simp add: e i m f r)
qed

subsection \<open>C10: identifiers with the same stripped form\<close>

text \<open>
  Claim C10.  Two raw identifiers with the same stripped form have the same file path;
  with the file backend selected, \<^verbatim>\<open>getPaste\<close> and \<^verbatim>\<open>deletePaste\<close> do the same on both
  (same result, same world), and a paste saved under one is read back under the other.
  The memory backend keys on the raw identifier: saving under one identifier changes
  nothing of what a read of a different one returns, whatever their stripped forms.
\<close>

theorem alias_by_safeId:
  assumes "safeId a = safeId b"
  shows "getPasteFilePath pr a = getPasteFilePath pr b \<and>
         (getStorageMode pr = File \<longrightarrow>
            getPaste pr w now a = getPaste pr w now b \<and>
            deletePaste pr w now a = deletePaste pr w now b \<and>
            (id_p p = a \<longrightarrow> expiry_not_passed now' p \<longrightarrow>
               fst (getPaste pr (savePaste pr w now p) now' b) = Some p)) \<and>
         (getStorageMode pr = Memory \<longrightarrow> id_p p = a \<longrightarrow> a \<noteq> b \<longrightarrow>
            fst (getPaste pr (savePaste pr w now p) now' b) = fst (getPaste pr w now' b))"
proof -
  have same: "getPasteFilePath pr a = getPasteFilePath pr b"
    using assms by (simp add: getPasteFilePath_def)
  have "fileGet pr w now a = fileGet pr w now b"
    by (simp add: fileGet_def same)
  moreover have "getStorageMode pr = File \<Longrightarrow> deletePaste pr w now a = deletePaste pr w now b"
    by (simp add: deletePaste_def same)
  moreover have "id_p p = a \<Longrightarrow> expiry_not_passed now' p \<Longrightarrow>
      fst (fileGet pr (fileSet pr w p) now' b) = Some p"
    using file_round_trip [of now' p pr w] by (simp add: fileGet_def same [symmetric])
  moreover have "id_p p = a \<Longrightarrow> a \<noteq> b \<Longrightarrow>
      fst (memGet (memSet w p) now' b) = fst (memGet w now' b)"
    by (simp add: memGet_def memSet_def AList.update_conv' split: option.splits)
  ultimately show ?thesis
    using same by (simp add: getPaste_def savePaste_def)
qed

theorem alias_by_safeId_witness:
  "safeId ''ab/c'' = safeId ''a.bc'' \<and>
   getPasteFilePath proc_file ''ab/c'' = getPasteFilePath proc_file ''a.bc'' \<and>
   id_p (mk_paste ''ab/c'' 1000 None) = ''ab/c'' \<and> expiry_not_passed 2000 (mk_paste ''ab/c'' 1000 None) \<and>
   fst (getPaste proc_file (savePaste proc_file w_empty 1000 (mk_paste ''ab/c'' 1000 None)) 2000 ''a.bc'')
     = Some (mk_paste ''ab/c'' 1000 None) \<and>
   ''ab/c'' \<noteq> ''a.bc'' \<and>
   fst (getPaste proc_memory (savePaste proc_memory w_empty 1000 (mk_paste ''ab/c'' 1000 None)) 2000 ''a.bc'')
     = None"
proof -
  have s: "safeId ''ab/c'' = safeId ''a.bc''" by (simp add: safeId_def safe_char_def)
  have i: "id_p (mk_paste ''ab/c'' 1000 None) = ''ab/c''"
    and h: "expiry_not_passed 2000 (mk_paste ''ab/c'' 1000 None)"
    by (simp_all add: mk_paste_def expiry_not_passed_def)
  have n: "fst (getPaste proc_memory w_empty 2000 ''a.bc'') = None"
    by (simp add: getPaste_def memGet_def w_empty_def)
  show ?thesis
    using alias_by_safeId [OF s, of proc_file w_empty 1000 "mk_paste ''ab/c'' 1000 None" 2000]
      alias_by_safeId [OF s, of proc_memory w_empty 1000 "mk_paste ''ab/c'' 1000 None" 2000]
    by (simp add: s i h n)
qed

end
